theory Spec2Isabelle
  imports Main
begin

section \<open>The backing sequence: \<open>std::vector<T>\<close>\<close>

text \<open>
  Both classes of \<open>minmaxheap_chaurasia.hpp\<close> have one data member, \<open>std::vector<T> data\<close>.
  A vector is modelled by its element sequence and its reserved capacity; the capacity is
  the only part of the state that \<open>reserve\<close> (called by the constructor that takes an
  initial size) changes. The element type is any \<open>std::totally_ordered\<close> type: a
  \<open>linorder\<close>.

  A call ends in one of three ways: it returns, it throws, or it runs into undefined
  behaviour. The exceptions are \<open>std::out_of_range\<close> (thrown by the heaps),
  \<open>std::length_error\<close> and \<open>std::bad_alloc\<close> (thrown by the vector);
  \<open>undefined_behaviour\<close> marks the overflow of a signed \<open>int\<close>, after which the
  language says nothing of what the program does.
\<close>

datatype failure = out_of_range string | length_error | bad_alloc | undefined_behaviour

record 'a vector =
  elems :: "'a list"
  capacity :: nat

subsection \<open>\<open>int\<close> and \<open>size_t\<close>\<close>

text \<open>
  The source computes every index, and the result of \<open>getSize\<close>, in \<open>int\<close> (32 bits,
  two's complement), while \<open>data.size()\<close> is a \<open>size_t\<close> (64 bits). A \<open>size_t\<close> is
  converted to \<open>int\<close> modulo \<open>2^32\<close> (C++20, which the source's concepts require), an
  \<open>int\<close> to \<open>size_t\<close> modulo \<open>2^64\<close>. Arithmetic on \<open>int\<close> whose result leaves
  the range from \<open>INT_MIN\<close> to \<open>INT_MAX\<close> is undefined behaviour.
\<close>

definition INT_MAX :: int where
  "INT_MAX = 2 ^ 31 - 1"

definition INT_MIN :: int where
  "INT_MIN = - (2 ^ 31)"

definition int_of_size_t :: "nat \<Rightarrow> int" where
  "int_of_size_t n = (int n + 2 ^ 31) mod 2 ^ 32 - 2 ^ 31"

definition size_t_of_int :: "int \<Rightarrow> nat" where
  "size_t_of_int n = nat (n mod 2 ^ 64)"

subsection \<open>The operations of the vector that the heaps use\<close>

definition vec_new :: "'a vector" where
  "vec_new = \<lparr>elems = [], capacity = 0\<rparr>"

definition vec_size :: "'a vector \<Rightarrow> nat" where
  "vec_size v = length (elems v)"

definition vec_empty :: "'a vector \<Rightarrow> bool" where
  "vec_empty v \<longleftrightarrow> elems v = []"

text \<open>
  \<open>push_back\<close> appends; when the reserved storage is full the vector reallocates
  (the growth factor is the library's choice; doubling is modelled). The specification
  puts a failure to grow during an insertion outside the contract of the heaps, and
  \<open>push_back\<close> is taken to succeed. \<open>pop_back\<close> drops the last element and keeps the
  storage.
\<close>

definition vec_push_back :: "'a vector \<Rightarrow> 'a \<Rightarrow> 'a vector" where
  "vec_push_back v x =
     \<lparr>elems = elems v @ [x],
      capacity = (if length (elems v) < capacity v then capacity v
                  else length (elems v) + max (length (elems v)) 1)\<rparr>"

definition vec_pop_back :: "'a vector \<Rightarrow> 'a vector" where
  "vec_pop_back v = v\<lparr>elems := butlast (elems v)\<rparr>"

text \<open>
  \<open>reserve(n)\<close> depends on the platform: on \<open>sizeof(T)\<close>, which bounds \<open>max_size()\<close>
  (\<open>PTRDIFF_MAX / sizeof(T)\<close> in libstdc++, and never more than \<open>PTRDIFF_MAX\<close>), and on
  whether the allocator grants storage for \<open>n\<close> elements. It throws \<open>std::length_error\<close>
  when \<open>n\<close> exceeds \<open>max_size()\<close>; it does nothing when the capacity is already \<open>n\<close> or
  more; otherwise it allocates storage for \<open>n\<close> elements, and throws \<open>std::bad_alloc\<close>
  when the allocator refuses. The elements stay as they are.
\<close>

record platform =
  elem_size :: nat
  alloc_ok :: "nat \<Rightarrow> bool"

definition vec_max_size :: "platform \<Rightarrow> nat" where
  "vec_max_size P = (2 ^ 63 - 1) div elem_size P"

definition vec_reserve :: "platform \<Rightarrow> 'a vector \<Rightarrow> nat \<Rightarrow> failure + 'a vector" where
  "vec_reserve P v n =
     (if n > vec_max_size P then Inl length_error
      else if n \<le> capacity v then Inr v
      else if alloc_ok P n then Inr (v\<lparr>capacity := n\<rparr>)
      else Inl bad_alloc)"

text \<open>
  One concrete platform, for the evaluations: elements of four bytes (an \<open>int\<close>) and an
  allocator that grants every request.
\<close>

definition ample :: platform where
  "ample = \<lparr>elem_size = 4, alloc_ok = (\<lambda>n. True)\<rparr>"

text \<open>\<open>std::swap(data[i], data[j])\<close> on the element sequence.\<close>

definition swap_at :: "'a list \<Rightarrow> nat \<Rightarrow> nat \<Rightarrow> 'a list" where
  "swap_at d i j = d[i := d ! j, j := d ! i]"

section \<open>MinHeap\<close>

text \<open>
  The private helpers \<open>bubbleUp\<close> and \<open>bubbleDown\<close> read and write the elements of
  \<open>data\<close> only (through \<open>operator[]\<close>, \<open>size\<close> and \<open>std::swap\<close>), so they are functions
  on the element sequence; their \<open>index\<close> is an \<open>int\<close>. \<open>bubbleUp\<close> is the
  \<open>while (index > 0)\<close> loop of lines 29-41: there \<open>index - 1\<close> is not negative, so that
  the division of C++ is \<open>div\<close>, and an index that is not negative converts to the
  \<open>size_t\<close> of the same value (\<open>nat\<close>). The class calls \<open>bubbleUp\<close> with the last
  index and \<open>bubbleDown\<close> with \<open>0\<close> and then with child indices that have passed the
  test against the size; the size narrowed to \<open>int\<close> never exceeds the size, so
  these calls read and write within bounds.
\<close>

function MinHeap_bubbleUp :: "'a::linorder list \<Rightarrow> int \<Rightarrow> 'a list" where
  "MinHeap_bubbleUp d index =
     (if index > 0 then
        (let parentIndex = (index - 1) div 2 in
         if d ! nat parentIndex > d ! nat index
         then MinHeap_bubbleUp (swap_at d (nat parentIndex) (nat index)) parentIndex
         else d)
      else d)"
  by pat_completeness auto
termination MinHeap_bubbleUp
  by (relation "measure (\<lambda>(d, index). nat index)") auto

declare MinHeap_bubbleUp.simps [simp del]

text \<open>
  Lines 46-57 of \<open>bubbleDown\<close>: the index, among \<open>index\<close> and its children within
  bounds, that the current node is to be swapped with. \<open>2 * index + 1\<close> and
  \<open>2 * index + 2\<close> are computed first, in \<open>int\<close>: there is no result (\<open>None\<close>) when
  one of them overflows. The bound of both tests is \<open>data.size()\<close> cast to \<open>int\<close>.
\<close>

definition MinHeap_smallest :: "'a::linorder list \<Rightarrow> int \<Rightarrow> int option" where
  "MinHeap_smallest d index =
     (if 2 * index + 2 > INT_MAX \<or> 2 * index + 1 < INT_MIN then None
      else
        (let leftChildIndex = 2 * index + 1;
             rightChildIndex = 2 * index + 2;
             smallest = index;
             smallest = (if leftChildIndex < int_of_size_t (length d)
                            \<and> d ! nat leftChildIndex < d ! nat index
                         then leftChildIndex else smallest);
             smallest = (if rightChildIndex < int_of_size_t (length d)
                            \<and> d ! nat rightChildIndex < d ! nat smallest
                         then rightChildIndex else smallest)
         in Some smallest))"

lemma MinHeap_smallest_cases:
  assumes "MinHeap_smallest d i = Some s"
  shows "s = i \<or> (0 \<le> i \<and> i < s \<and> s \<le> INT_MAX \<and> s < int_of_size_t (length d)
                   \<and> (s = 2 * i + 1 \<or> s = 2 * i + 2))"
proof (cases "0 \<le> i")
  case True
  then show ?thesis
    using assms by (auto simp add: MinHeap_smallest_def Let_def split: if_splits)
next
  case False
  then have "nat (2 * i + 1) = nat i" "nat (2 * i + 2) = nat i" by simp_all
  then show ?thesis
    using assms by (auto simp add: MinHeap_smallest_def Let_def split: if_splits)
qed

text \<open>
  \<open>bubbleDown\<close> (lines 44-64) has no result when the index arithmetic of one of its
  steps overflows.
\<close>

function MinHeap_bubbleDown :: "'a::linorder list \<Rightarrow> int \<Rightarrow> 'a list option" where
  "MinHeap_bubbleDown d index =
     (case MinHeap_smallest d index of
        None \<Rightarrow> None
      | Some smallest \<Rightarrow>
          if smallest \<noteq> index
          then MinHeap_bubbleDown (swap_at d (nat index) (nat smallest)) smallest
          else Some d)"
  by pat_completeness auto
termination MinHeap_bubbleDown
proof (relation "measure (\<lambda>(d, index). nat (INT_MAX - index))")
  show "wf (measure (\<lambda>(d, index). nat (INT_MAX - index)))"
    by simp
next
  fix d :: "'a list" and index smallest
  assume "MinHeap_smallest d index = Some smallest" and "smallest \<noteq> index"
  then show "((swap_at d (nat index) (nat smallest), smallest), (d, index))
               \<in> measure (\<lambda>(d, index). nat (INT_MAX - index))"
    using MinHeap_smallest_cases [of d index smallest] by auto
qed

declare MinHeap_bubbleDown.simps [simp del]

text \<open>
  The public interface. Every member function is a state transformer on \<open>data\<close>: it
  returns how the call ends (what it returns, the exception it throws, or undefined
  behaviour) and the state after the call. The \<open>const\<close> members return the state they
  were given. \<open>enqueue\<close> passes \<open>data.size() - 1\<close>, a \<open>size_t\<close>, to the \<open>int\<close>
  parameter of \<open>bubbleUp\<close>; \<open>getSize\<close> returns \<open>data.size()\<close> as an \<open>int\<close>.
\<close>

definition MinHeap_new :: "'a vector" where
  "MinHeap_new = vec_new"

definition MinHeap_new_sized :: "platform \<Rightarrow> int \<Rightarrow> failure + 'a vector" where
  "MinHeap_new_sized P initialSize = vec_reserve P vec_new (size_t_of_int initialSize)"

definition MinHeap_enqueue :: "'a::linorder \<Rightarrow> 'a vector \<Rightarrow> (failure + unit) \<times> 'a vector" where
  "MinHeap_enqueue item h =
     (let h = vec_push_back h item;
          h = h\<lparr>elems := MinHeap_bubbleUp (elems h) (int_of_size_t (vec_size h - 1))\<rparr>
      in (Inr (), h))"

definition MinHeap_dequeue :: "'a::linorder vector \<Rightarrow> (failure + unit) \<times> 'a vector" where
  "MinHeap_dequeue h =
     (if vec_empty h then (Inl (out_of_range ''Cannot dequeue from an empty heap.''), h)
      else
        (let h = h\<lparr>elems := (elems h)[0 := last (elems h)]\<rparr>;
             h = vec_pop_back h
         in if \<not> vec_empty h
            then (case MinHeap_bubbleDown (elems h) 0 of
                    None \<Rightarrow> (Inl undefined_behaviour, h)
                  | Some d \<Rightarrow> (Inr (), h\<lparr>elems := d\<rparr>))
            else (Inr (), h)))"

definition MinHeap_peek :: "'a vector \<Rightarrow> (failure + 'a) \<times> 'a vector" where
  "MinHeap_peek h =
     (if vec_empty h then (Inl (out_of_range ''Heap is empty.''), h)
      else (Inr (hd (elems h)), h))"

definition MinHeap_getSize :: "'a vector \<Rightarrow> (failure + int) \<times> 'a vector" where
  "MinHeap_getSize h = (Inr (int_of_size_t (vec_size h)), h)"

definition MinHeap_isEmpty :: "'a vector \<Rightarrow> (failure + bool) \<times> 'a vector" where
  "MinHeap_isEmpty h = (Inr (vec_empty h), h)"

section \<open>MaxHeap\<close>

text \<open>Lines 111-190: the same class with every comparison of elements inverted.\<close>

function MaxHeap_bubbleUp :: "'a::linorder list \<Rightarrow> int \<Rightarrow> 'a list" where
  "MaxHeap_bubbleUp d index =
     (if index > 0 then
        (let parentIndex = (index - 1) div 2 in
         if d ! nat parentIndex < d ! nat index
         then MaxHeap_bubbleUp (swap_at d (nat parentIndex) (nat index)) parentIndex
         else d)
      else d)"
  by pat_completeness auto
termination MaxHeap_bubbleUp
  by (relation "measure (\<lambda>(d, index). nat index)") auto

declare MaxHeap_bubbleUp.simps [simp del]

definition MaxHeap_largest :: "'a::linorder list \<Rightarrow> int \<Rightarrow> int option" where
  "MaxHeap_largest d index =
     (if 2 * index + 2 > INT_MAX \<or> 2 * index + 1 < INT_MIN then None
      else
        (let leftChildIndex = 2 * index + 1;
             rightChildIndex = 2 * index + 2;
             largest = index;
             largest = (if leftChildIndex < int_of_size_t (length d)
                           \<and> d ! nat leftChildIndex > d ! nat index
                        then leftChildIndex else largest);
             largest = (if rightChildIndex < int_of_size_t (length d)
                           \<and> d ! nat rightChildIndex > d ! nat largest
                        then rightChildIndex else largest)
         in Some largest))"

lemma MaxHeap_largest_cases:
  assumes "MaxHeap_largest d i = Some s"
  shows "s = i \<or> (0 \<le> i \<and> i < s \<and> s \<le> INT_MAX \<and> s < int_of_size_t (length d)
                   \<and> (s = 2 * i + 1 \<or> s = 2 * i + 2))"
proof (cases "0 \<le> i")
  case True
  then show ?thesis
    using assms by (auto simp add: MaxHeap_largest_def Let_def split: if_splits)
next
  case False
  then have "nat (2 * i + 1) = nat i" "nat (2 * i + 2) = nat i" by simp_all
  then show ?thesis
    using assms by (auto simp add: MaxHeap_largest_def Let_def split: if_splits)
qed

function MaxHeap_bubbleDown :: "'a::linorder list \<Rightarrow> int \<Rightarrow> 'a list option" where
  "MaxHeap_bubbleDown d index =
     (case MaxHeap_largest d index of
        None \<Rightarrow> None
      | Some largest \<Rightarrow>
          if largest \<noteq> index
          then MaxHeap_bubbleDown (swap_at d (nat index) (nat largest)) largest
          else Some d)"
  by pat_completeness auto
termination MaxHeap_bubbleDown
proof (relation "measure (\<lambda>(d, index). nat (INT_MAX - index))")
  show "wf (measure (\<lambda>(d, index). nat (INT_MAX - index)))"
    by simp
next
  fix d :: "'a list" and index largest
  assume "MaxHeap_largest d index = Some largest" and "largest \<noteq> index"
  then show "((swap_at d (nat index) (nat largest), largest), (d, index))
               \<in> measure (\<lambda>(d, index). nat (INT_MAX - index))"
    using MaxHeap_largest_cases [of d index largest] by auto
qed

declare MaxHeap_bubbleDown.simps [simp del]

definition MaxHeap_new :: "'a vector" where
  "MaxHeap_new = vec_new"

definition MaxHeap_new_sized :: "platform \<Rightarrow> int \<Rightarrow> failure + 'a vector" where
  "MaxHeap_new_sized P initialSize = vec_reserve P vec_new (size_t_of_int initialSize)"

definition MaxHeap_enqueue :: "'a::linorder \<Rightarrow> 'a vector \<Rightarrow> (failure + unit) \<times> 'a vector" where
  "MaxHeap_enqueue item h =
     (let h = vec_push_back h item;
          h = h\<lparr>elems := MaxHeap_bubbleUp (elems h) (int_of_size_t (vec_size h - 1))\<rparr>
      in (Inr (), h))"

definition MaxHeap_dequeue :: "'a::linorder vector \<Rightarrow> (failure + unit) \<times> 'a vector" where
  "MaxHeap_dequeue h =
     (if vec_empty h then (Inl (out_of_range ''Cannot dequeue from an empty heap.''), h)
      else
        (let h = h\<lparr>elems := (elems h)[0 := last (elems h)]\<rparr>;
             h = vec_pop_back h
         in if \<not> vec_empty h
            then (case MaxHeap_bubbleDown (elems h) 0 of
                    None \<Rightarrow> (Inl undefined_behaviour, h)
                  | Some d \<Rightarrow> (Inr (), h\<lparr>elems := d\<rparr>))
            else (Inr (), h)))"

definition MaxHeap_peek :: "'a vector \<Rightarrow> (failure + 'a) \<times> 'a vector" where
  "MaxHeap_peek h =
     (if vec_empty h then (Inl (out_of_range ''Heap is empty.''), h)
      else (Inr (hd (elems h)), h))"

definition MaxHeap_getSize :: "'a vector \<Rightarrow> (failure + int) \<times> 'a vector" where
  "MaxHeap_getSize h = (Inr (int_of_size_t (vec_size h)), h)"

definition MaxHeap_isEmpty :: "'a vector \<Rightarrow> (failure + bool) \<times> 'a vector" where
  "MaxHeap_isEmpty h = (Inr (vec_empty h), h)"

section \<open>Sequences of calls\<close>

text \<open>
  A client of either class issues calls one after another; a call that throws leaves the
  object in the state the member function had reached when it threw, and the client goes
  on. Once a call has run into undefined behaviour nothing is known of the program any
  more: every later call is marked so as well. \<open>MinHeap_run\<close> and \<open>MaxHeap_run\<close> return
  how each call ended, in order, and the final state.
\<close>

datatype 'a call = Enqueue 'a | Dequeue | Peek | GetSize | IsEmpty

datatype 'a returned = Void | Item 'a | Count int | Flag bool

definition MinHeap_call ::
  "'a::linorder call \<Rightarrow> 'a vector \<Rightarrow> (failure + 'a returned) \<times> 'a vector" where
  "MinHeap_call c h =
     (case c of
        Enqueue item \<Rightarrow> apfst (map_sum id (\<lambda>_. Void)) (MinHeap_enqueue item h)
      | Dequeue \<Rightarrow> apfst (map_sum id (\<lambda>_. Void)) (MinHeap_dequeue h)
      | Peek \<Rightarrow> apfst (map_sum id Item) (MinHeap_peek h)
      | GetSize \<Rightarrow> apfst (map_sum id Count) (MinHeap_getSize h)
      | IsEmpty \<Rightarrow> apfst (map_sum id Flag) (MinHeap_isEmpty h))"

fun MinHeap_run ::
  "'a::linorder call list \<Rightarrow> 'a vector \<Rightarrow> (failure + 'a returned) list \<times> 'a vector" where
  "MinHeap_run [] h = ([], h)"
| "MinHeap_run (c # cs) h =
     (let (r, h) = MinHeap_call c h in
      if r = Inl undefined_behaviour
      then (r # map (\<lambda>c. Inl undefined_behaviour) cs, h)
      else (let (rs, h) = MinHeap_run cs h in (r # rs, h)))"

definition MaxHeap_call ::
  "'a::linorder call \<Rightarrow> 'a vector \<Rightarrow> (failure + 'a returned) \<times> 'a vector" where
  "MaxHeap_call c h =
     (case c of
        Enqueue item \<Rightarrow> apfst (map_sum id (\<lambda>_. Void)) (MaxHeap_enqueue item h)
      | Dequeue \<Rightarrow> apfst (map_sum id (\<lambda>_. Void)) (MaxHeap_dequeue h)
      | Peek \<Rightarrow> apfst (map_sum id Item) (MaxHeap_peek h)
      | GetSize \<Rightarrow> apfst (map_sum id Count) (MaxHeap_getSize h)
      | IsEmpty \<Rightarrow> apfst (map_sum id Flag) (MaxHeap_isEmpty h))"

fun MaxHeap_run ::
  "'a::linorder call list \<Rightarrow> 'a vector \<Rightarrow> (failure + 'a returned) list \<times> 'a vector" where
  "MaxHeap_run [] h = ([], h)"
| "MaxHeap_run (c # cs) h =
     (let (r, h) = MaxHeap_call c h in
      if r = Inl undefined_behaviour
      then (r # map (\<lambda>c. Inl undefined_behaviour) cs, h)
      else (let (rs, h) = MaxHeap_run cs h in (r # rs, h)))"

section \<open>Basic facts\<close>

lemma length_swap_at [simp]: "length (swap_at d i j) = length d"
  by (simp add: swap_at_def)

lemma length_MinHeap_bubbleUp [simp]: "length (MinHeap_bubbleUp d i) = length d"
proof (induction d i rule: MinHeap_bubbleUp.induct)
  case (1 d index)
  then show ?case by (subst MinHeap_bubbleUp.simps) (simp add: Let_def)
qed

lemma length_MinHeap_bubbleDown:
  "MinHeap_bubbleDown d i = Some d' \<Longrightarrow> length d' = length d"
proof (induction d i rule: MinHeap_bubbleDown.induct)
  case (1 d index)
  from "1.prems" obtain s where s: "MinHeap_smallest d index = Some s"
    by (subst (asm) MinHeap_bubbleDown.simps) (auto split: option.splits)
  show ?case
  proof (cases "s = index")
    case True
    then show ?thesis
      using "1.prems" s by (subst (asm) MinHeap_bubbleDown.simps) simp
  next
    case False
    then have "MinHeap_bubbleDown (swap_at d (nat index) (nat s)) s = Some d'"
      using "1.prems" s by (subst (asm) MinHeap_bubbleDown.simps) simp
    then have "length d' = length (swap_at d (nat index) (nat s))"
      using "1.IH" [OF s False] by simp
    then show ?thesis by simp
  qed
qed

lemma elems_MinHeap_enqueue:
  "elems (snd (MinHeap_enqueue x h))
     = MinHeap_bubbleUp (elems h @ [x]) (int_of_size_t (length (elems h)))"
  by (simp add: MinHeap_enqueue_def vec_push_back_def vec_size_def Let_def)

lemma fst_MinHeap_enqueue [simp]: "fst (MinHeap_enqueue x h) = Inr ()"
  by (simp add: MinHeap_enqueue_def Let_def)

lemma MinHeap_dequeue_returns:
  assumes "MinHeap_dequeue h = (Inr u, h')"
  shows "elems h \<noteq> [] \<and> length (elems h') = length (elems h) - 1"
proof -
  let ?d = "butlast ((elems h)[0 := last (elems h)])"
  have ne: "elems h \<noteq> []"
    using assms by (auto simp add: MinHeap_dequeue_def vec_empty_def)
  have len: "length ?d = length (elems h) - 1" by simp
  show ?thesis
  proof (cases "?d = []")
    case True
    then have "elems h' = []"
      using assms ne by (auto simp add: MinHeap_dequeue_def vec_empty_def vec_pop_back_def Let_def)
    then show ?thesis using ne len True by (simp del: length_butlast)
  next
    case False
    then obtain d' where d': "MinHeap_bubbleDown ?d 0 = Some d'" and "elems h' = d'"
      using assms ne
      by (auto simp add: MinHeap_dequeue_def vec_empty_def vec_pop_back_def Let_def
            split: option.splits)
    then show ?thesis
      using ne len length_MinHeap_bubbleDown [OF d'] by (simp del: length_butlast)
  qed
qed

lemma MinHeap_dequeue_fails:
  assumes "MinHeap_dequeue h = (Inl e, h')" and "elems h \<noteq> []"
  shows "e = undefined_behaviour"
  using assms
  by (auto simp add: MinHeap_dequeue_def vec_empty_def vec_pop_back_def Let_def
        split: option.splits if_splits)

lemma MinHeap_run_Cons:
  "MinHeap_run (c # cs) h =
     (if fst (MinHeap_call c h) = Inl undefined_behaviour
      then (Inl undefined_behaviour # map (\<lambda>c. Inl undefined_behaviour) cs, snd (MinHeap_call c h))
      else (fst (MinHeap_call c h) # fst (MinHeap_run cs (snd (MinHeap_call c h))),
            snd (MinHeap_run cs (snd (MinHeap_call c h)))))"
  by (simp add: split_beta)

declare MinHeap_run.simps(2) [simp del]

lemma length_MaxHeap_bubbleUp [simp]: "length (MaxHeap_bubbleUp d i) = length d"
proof (induction d i rule: MaxHeap_bubbleUp.induct)
  case (1 d index)
  then show ?case by (subst MaxHeap_bubbleUp.simps) (simp add: Let_def)
qed

lemma length_MaxHeap_bubbleDown:
  "MaxHeap_bubbleDown d i = Some d' \<Longrightarrow> length d' = length d"
proof (induction d i rule: MaxHeap_bubbleDown.induct)
  case (1 d index)
  from "1.prems" obtain s where s: "MaxHeap_largest d index = Some s"
    by (subst (asm) MaxHeap_bubbleDown.simps) (auto split: option.splits)
  show ?case
  proof (cases "s = index")
    case True
    then show ?thesis
      using "1.prems" s by (subst (asm) MaxHeap_bubbleDown.simps) simp
  next
    case False
    then have "MaxHeap_bubbleDown (swap_at d (nat index) (nat s)) s = Some d'"
      using "1.prems" s by (subst (asm) MaxHeap_bubbleDown.simps) simp
    then have "length d' = length (swap_at d (nat index) (nat s))"
      using "1.IH" [OF s False] by simp
    then show ?thesis by simp
  qed
qed

lemma elems_MaxHeap_enqueue:
  "elems (snd (MaxHeap_enqueue x h))
     = MaxHeap_bubbleUp (elems h @ [x]) (int_of_size_t (length (elems h)))"
  by (simp add: MaxHeap_enqueue_def vec_push_back_def vec_size_def Let_def)

lemma fst_MaxHeap_enqueue [simp]: "fst (MaxHeap_enqueue x h) = Inr ()"
  by (simp add: MaxHeap_enqueue_def Let_def)

lemma MaxHeap_dequeue_returns:
  assumes "MaxHeap_dequeue h = (Inr u, h')"
  shows "elems h \<noteq> [] \<and> length (elems h') = length (elems h) - 1"
proof -
  let ?d = "butlast ((elems h)[0 := last (elems h)])"
  have ne: "elems h \<noteq> []"
    using assms by (auto simp add: MaxHeap_dequeue_def vec_empty_def)
  have len: "length ?d = length (elems h) - 1" by simp
  show ?thesis
  proof (cases "?d = []")
    case True
    then have "elems h' = []"
      using assms ne by (auto simp add: MaxHeap_dequeue_def vec_empty_def vec_pop_back_def Let_def)
    then show ?thesis using ne len True by (simp del: length_butlast)
  next
    case False
    then obtain d' where d': "MaxHeap_bubbleDown ?d 0 = Some d'" and "elems h' = d'"
      using assms ne
      by (auto simp add: MaxHeap_dequeue_def vec_empty_def vec_pop_back_def Let_def
            split: option.splits)
    then show ?thesis
      using ne len length_MaxHeap_bubbleDown [OF d'] by (simp del: length_butlast)
  qed
qed

lemma MaxHeap_dequeue_fails:
  assumes "MaxHeap_dequeue h = (Inl e, h')" and "elems h \<noteq> []"
  shows "e = undefined_behaviour"
  using assms
  by (auto simp add: MaxHeap_dequeue_def vec_empty_def vec_pop_back_def Let_def
        split: option.splits if_splits)

lemma MaxHeap_run_Cons:
  "MaxHeap_run (c # cs) h =
     (if fst (MaxHeap_call c h) = Inl undefined_behaviour
      then (Inl undefined_behaviour # map (\<lambda>c. Inl undefined_behaviour) cs, snd (MaxHeap_call c h))
      else (fst (MaxHeap_call c h) # fst (MaxHeap_run cs (snd (MaxHeap_call c h))),
            snd (MaxHeap_run cs (snd (MaxHeap_call c h)))))"
  by (simp add: split_beta)

declare MaxHeap_run.simps(2) [simp del]

section \<open>Draining a heap\<close>

text \<open>
  The client loop that empties a heap: while \<open>isEmpty()\<close> is false, read the root with
  \<open>peek()\<close> and remove it with \<open>dequeue()\<close>. It returns the values read, in order, how
  the loop ended (it stops at a call that does not return), and the heap it leaves. Its
  termination rests on what a \<open>dequeue\<close> that returns does to the size.
\<close>

function MinHeap_drain ::
  "'a::linorder vector \<Rightarrow> 'a list \<times> (failure + unit) \<times> 'a vector" where
  "MinHeap_drain h =
     (if fst (MinHeap_isEmpty h) = Inr True then ([], Inr (), h)
      else (case fst (MinHeap_peek h) of
              Inl e \<Rightarrow> ([], Inl e, h)
            | Inr x \<Rightarrow>
                (case MinHeap_dequeue h of
                   (Inl e, h') \<Rightarrow> ([x], Inl e, h')
                 | (Inr u, h') \<Rightarrow>
                     (let (xs, r, h'') = MinHeap_drain h' in (x # xs, r, h'')))))"
  by pat_completeness auto
termination MinHeap_drain
  by (relation "measure vec_size")
     (auto simp add: vec_size_def dest!: MinHeap_dequeue_returns [OF sym])

declare MinHeap_drain.simps [simp del]

function MaxHeap_drain ::
  "'a::linorder vector \<Rightarrow> 'a list \<times> (failure + unit) \<times> 'a vector" where
  "MaxHeap_drain h =
     (if fst (MaxHeap_isEmpty h) = Inr True then ([], Inr (), h)
      else (case fst (MaxHeap_peek h) of
              Inl e \<Rightarrow> ([], Inl e, h)
            | Inr x \<Rightarrow>
                (case MaxHeap_dequeue h of
                   (Inl e, h') \<Rightarrow> ([x], Inl e, h')
                 | (Inr u, h') \<Rightarrow>
                     (let (xs, r, h'') = MaxHeap_drain h' in (x # xs, r, h'')))))"
  by pat_completeness auto
termination MaxHeap_drain
  by (relation "measure vec_size")
     (auto simp add: vec_size_def dest!: MaxHeap_dequeue_returns [OF sym])

declare MaxHeap_drain.simps [simp del]

section \<open>The conversions between \<open>size_t\<close> and \<open>int\<close>\<close>

lemma int_of_size_t_small: "n < 2 ^ 31 \<Longrightarrow> int_of_size_t n = int n"
proof -
  assume "n < 2 ^ 31"
  then have "int n < 2 ^ 31" by (metis of_nat_less_iff of_nat_numeral of_nat_power)
  then have "(int n + 2 ^ 31) mod 2 ^ 32 = int n + 2 ^ 31"
    by (intro mod_pos_pos_trivial) simp_all
  then show ?thesis by (simp add: int_of_size_t_def)
qed

lemma int_of_size_t_le: "int_of_size_t n \<le> int n"
proof -
  have "(int n + 2 ^ 31) mod 2 ^ 32 \<le> int n + 2 ^ 31"
    by (rule zmod_le_nonneg_dividend) simp
  then show ?thesis by (simp add: int_of_size_t_def)
qed

lemma int_of_size_t_2_31: "int_of_size_t 2147483648 = - 2147483648"
  by (simp add: int_of_size_t_def)

lemma size_t_of_int_negative:
  assumes "N < 0" and "INT_MIN \<le> N"
  shows "size_t_of_int N = nat (2 ^ 64 + N)" "2 ^ 63 \<le> size_t_of_int N"
proof -
  have r: "- (2 ^ 31) \<le> N" using assms(2) by (simp add: INT_MIN_def)
  have "N mod 2 ^ 64 = (N + 2 ^ 64) mod 2 ^ 64" by simp
  also have "\<dots> = N + 2 ^ 64"
    using assms(1) r by (intro mod_pos_pos_trivial) simp_all
  finally have "N mod 2 ^ 64 = 2 ^ 64 + N" by simp
  then have s: "size_t_of_int N = nat (2 ^ 64 + N)"
    unfolding size_t_of_int_def by (rule arg_cong)
  then show "size_t_of_int N = nat (2 ^ 64 + N)" .
  have "(2::int) ^ 63 \<le> 2 ^ 64 + N" using r by simp
  then have "nat (2 ^ 63) \<le> nat (2 ^ 64 + N)" by (rule nat_mono)
  then show "2 ^ 63 \<le> size_t_of_int N" unfolding s by simp
qed

lemma vec_max_size_le: "vec_max_size P \<le> 2 ^ 63 - 1"
  by (simp add: vec_max_size_def div_le_dividend)

lemma butlast_replicate_Suc: "butlast (replicate (Suc n) x) = replicate n x"
proof -
  have "replicate (Suc n) x = replicate n x @ [x]" by (simp add: replicate_append_same)
  then show ?thesis by (simp only: butlast_snoc)
qed

section \<open>MinHeap: heaps of equal elements\<close>

lemma MinHeap_bubbleUp_nonpos: "i \<le> 0 \<Longrightarrow> MinHeap_bubbleUp d i = d"
  by (subst MinHeap_bubbleUp.simps) simp

lemma MinHeap_bubbleUp_replicate:
  assumes "i < int n"
  shows "MinHeap_bubbleUp (replicate n x) i = replicate n x"
proof (cases "0 < i")
  case False
  then show ?thesis by (simp add: MinHeap_bubbleUp_nonpos)
next
  case True
  then have "nat i < n" and "nat ((i - 1) div 2) < n" using assms by simp_all
  then have "replicate n x ! nat i = x" and "replicate n x ! nat ((i - 1) div 2) = x"
    by simp_all
  then show ?thesis
    by (subst MinHeap_bubbleUp.simps) (simp add: Let_def)
qed

lemma MinHeap_enqueue_replicate:
  assumes "elems h = replicate n x"
  shows "elems (snd (MinHeap_enqueue x h)) = replicate (Suc n) x"
proof -
  have "int_of_size_t n < int (Suc n)"
    using int_of_size_t_le [of n] by simp
  then have "MinHeap_bubbleUp (replicate (Suc n) x) (int_of_size_t n) = replicate (Suc n) x"
    by (rule MinHeap_bubbleUp_replicate)
  moreover have "replicate n x @ [x] = replicate (Suc n) x"
    by (simp add: replicate_append_same)
  ultimately show ?thesis
    using assms by (simp add: elems_MinHeap_enqueue del: replicate_Suc)
qed

lemma MinHeap_enqueue_skipped:
  assumes "int_of_size_t (length (elems h)) \<le> 0"
  shows "elems (snd (MinHeap_enqueue x h)) = elems h @ [x]"
  using assms by (simp add: elems_MinHeap_enqueue MinHeap_bubbleUp_nonpos)

lemma MinHeap_call_Enqueue:
  "MinHeap_call (Enqueue x) h = (Inr Void, snd (MinHeap_enqueue x h))"
  by (simp add: MinHeap_call_def MinHeap_enqueue_def Let_def)

lemma MinHeap_run_replicate_Enqueue:
  assumes "elems h = replicate m x"
  shows "fst (MinHeap_run (replicate n (Enqueue x)) h) = replicate n (Inr Void) \<and>
         elems (snd (MinHeap_run (replicate n (Enqueue x)) h)) = replicate (m + n) x"
  using assms
proof (induction n arbitrary: h m)
  case 0
  then show ?case by simp
next
  case (Suc n)
  have "elems (snd (MinHeap_enqueue x h)) = replicate (Suc m) x"
    using Suc.prems by (rule MinHeap_enqueue_replicate)
  from Suc.IH [OF this] show ?case
    by (simp add: MinHeap_run_Cons MinHeap_call_Enqueue)
qed

lemma MinHeap_run_append:
  assumes "Inl undefined_behaviour \<notin> set (fst (MinHeap_run xs h))"
  shows "MinHeap_run (xs @ ys) h =
           (fst (MinHeap_run xs h) @ fst (MinHeap_run ys (snd (MinHeap_run xs h))),
            snd (MinHeap_run ys (snd (MinHeap_run xs h))))"
  using assms
proof (induction xs arbitrary: h)
  case Nil
  then show ?case by simp
next
  case (Cons c xs)
  from Cons.prems have c: "fst (MinHeap_call c h) \<noteq> Inl undefined_behaviour"
    by (auto simp add: MinHeap_run_Cons split: if_splits)
  with Cons.prems have "Inl undefined_behaviour \<notin> set (fst (MinHeap_run xs (snd (MinHeap_call c h))))"
    by (simp add: MinHeap_run_Cons)
  from Cons.IH [OF this] c show ?case
    by (simp add: MinHeap_run_Cons)
qed

lemma MinHeap_run_Enqueues_then:
  "MinHeap_run (replicate n (Enqueue x) @ cs) MinHeap_new =
     (replicate n (Inr Void)
        @ fst (MinHeap_run cs (snd (MinHeap_run (replicate n (Enqueue x)) MinHeap_new))),
      snd (MinHeap_run cs (snd (MinHeap_run (replicate n (Enqueue x)) MinHeap_new))))"
    "elems (snd (MinHeap_run (replicate n (Enqueue x)) MinHeap_new)) = replicate n x"
proof -
  have e: "elems (MinHeap_new :: 'a vector) = replicate 0 x"
    by (simp add: MinHeap_new_def vec_new_def)
  note r = MinHeap_run_replicate_Enqueue [OF e, of n]
  from r show "elems (snd (MinHeap_run (replicate n (Enqueue x)) MinHeap_new)) = replicate n x"
    by simp
  have "Inl undefined_behaviour \<notin> set (fst (MinHeap_run (replicate n (Enqueue x)) (MinHeap_new :: 'a vector)))"
    using r by simp
  from MinHeap_run_append [OF this, of cs] r
  show "MinHeap_run (replicate n (Enqueue x) @ cs) MinHeap_new =
     (replicate n (Inr Void)
        @ fst (MinHeap_run cs (snd (MinHeap_run (replicate n (Enqueue x)) MinHeap_new))),
      snd (MinHeap_run cs (snd (MinHeap_run (replicate n (Enqueue x)) MinHeap_new))))"
    by simp
qed

section \<open>MaxHeap: heaps of equal elements\<close>

lemma MaxHeap_bubbleUp_nonpos: "i \<le> 0 \<Longrightarrow> MaxHeap_bubbleUp d i = d"
  by (subst MaxHeap_bubbleUp.simps) simp

lemma MaxHeap_bubbleUp_replicate:
  assumes "i < int n"
  shows "MaxHeap_bubbleUp (replicate n x) i = replicate n x"
proof (cases "0 < i")
  case False
  then show ?thesis by (simp add: MaxHeap_bubbleUp_nonpos)
next
  case True
  then have "nat i < n" and "nat ((i - 1) div 2) < n" using assms by simp_all
  then have "replicate n x ! nat i = x" and "replicate n x ! nat ((i - 1) div 2) = x"
    by simp_all
  then show ?thesis
    by (subst MaxHeap_bubbleUp.simps) (simp add: Let_def)
qed

lemma MaxHeap_enqueue_replicate:
  assumes "elems h = replicate n x"
  shows "elems (snd (MaxHeap_enqueue x h)) = replicate (Suc n) x"
proof -
  have "int_of_size_t n < int (Suc n)"
    using int_of_size_t_le [of n] by simp
  then have "MaxHeap_bubbleUp (replicate (Suc n) x) (int_of_size_t n) = replicate (Suc n) x"
    by (rule MaxHeap_bubbleUp_replicate)
  moreover have "replicate n x @ [x] = replicate (Suc n) x"
    by (simp add: replicate_append_same)
  ultimately show ?thesis
    using assms by (simp add: elems_MaxHeap_enqueue del: replicate_Suc)
qed

lemma MaxHeap_enqueue_skipped:
  assumes "int_of_size_t (length (elems h)) \<le> 0"
  shows "elems (snd (MaxHeap_enqueue x h)) = elems h @ [x]"
  using assms by (simp add: elems_MaxHeap_enqueue MaxHeap_bubbleUp_nonpos)

lemma MaxHeap_call_Enqueue:
  "MaxHeap_call (Enqueue x) h = (Inr Void, snd (MaxHeap_enqueue x h))"
  by (simp add: MaxHeap_call_def MaxHeap_enqueue_def Let_def)

lemma MaxHeap_run_replicate_Enqueue:
  assumes "elems h = replicate m x"
  shows "fst (MaxHeap_run (replicate n (Enqueue x)) h) = replicate n (Inr Void) \<and>
         elems (snd (MaxHeap_run (replicate n (Enqueue x)) h)) = replicate (m + n) x"
  using assms
proof (induction n arbitrary: h m)
  case 0
  then show ?case by simp
next
  case (Suc n)
  have "elems (snd (MaxHeap_enqueue x h)) = replicate (Suc m) x"
    using Suc.prems by (rule MaxHeap_enqueue_replicate)
  from Suc.IH [OF this] show ?case
    by (simp add: MaxHeap_run_Cons MaxHeap_call_Enqueue)
qed

lemma MaxHeap_run_append:
  assumes "Inl undefined_behaviour \<notin> set (fst (MaxHeap_run xs h))"
  shows "MaxHeap_run (xs @ ys) h =
           (fst (MaxHeap_run xs h) @ fst (MaxHeap_run ys (snd (MaxHeap_run xs h))),
            snd (MaxHeap_run ys (snd (MaxHeap_run xs h))))"
  using assms
proof (induction xs arbitrary: h)
  case Nil
  then show ?case by simp
next
  case (Cons c xs)
  from Cons.prems have c: "fst (MaxHeap_call c h) \<noteq> Inl undefined_behaviour"
    by (auto simp add: MaxHeap_run_Cons split: if_splits)
  with Cons.prems have "Inl undefined_behaviour \<notin> set (fst (MaxHeap_run xs (snd (MaxHeap_call c h))))"
    by (simp add: MaxHeap_run_Cons)
  from Cons.IH [OF this] c show ?case
    by (simp add: MaxHeap_run_Cons)
qed

lemma MaxHeap_run_Enqueues_then:
  "MaxHeap_run (replicate n (Enqueue x) @ cs) MaxHeap_new =
     (replicate n (Inr Void)
        @ fst (MaxHeap_run cs (snd (MaxHeap_run (replicate n (Enqueue x)) MaxHeap_new))),
      snd (MaxHeap_run cs (snd (MaxHeap_run (replicate n (Enqueue x)) MaxHeap_new))))"
    "elems (snd (MaxHeap_run (replicate n (Enqueue x)) MaxHeap_new)) = replicate n x"
proof -
  have e: "elems (MaxHeap_new :: 'a vector) = replicate 0 x"
    by (simp add: MaxHeap_new_def vec_new_def)
  note r = MaxHeap_run_replicate_Enqueue [OF e, of n]
  from r show "elems (snd (MaxHeap_run (replicate n (Enqueue x)) MaxHeap_new)) = replicate n x"
    by simp
  have "Inl undefined_behaviour \<notin> set (fst (MaxHeap_run (replicate n (Enqueue x)) (MaxHeap_new :: 'a vector)))"
    using r by simp
  from MaxHeap_run_append [OF this, of cs] r
  show "MaxHeap_run (replicate n (Enqueue x) @ cs) MaxHeap_new =
     (replicate n (Inr Void)
        @ fst (MaxHeap_run cs (snd (MaxHeap_run (replicate n (Enqueue x)) MaxHeap_new))),
      snd (MaxHeap_run cs (snd (MaxHeap_run (replicate n (Enqueue x)) MaxHeap_new))))"
    by simp
qed

section \<open>MinHeap: removal where no index arithmetic goes wrong, and where the size wraps\<close>

lemma MinHeap_dequeue_nonempty:
  assumes "elems h \<noteq> []"
  shows "MinHeap_dequeue h =
           (let d = butlast ((elems h)[0 := last (elems h)]) in
            if d \<noteq> []
            then (case MinHeap_bubbleDown d 0 of
                    None \<Rightarrow> (Inl undefined_behaviour, h\<lparr>elems := d\<rparr>)
                  | Some d' \<Rightarrow> (Inr (), h\<lparr>elems := d'\<rparr>))
            else (Inr (), h\<lparr>elems := d\<rparr>))"
  using assms
  by (simp add: MinHeap_dequeue_def vec_empty_def vec_pop_back_def Let_def
        split: option.splits)

lemma MinHeap_smallest_wrapped:
  "int_of_size_t (length d) \<le> 1 \<Longrightarrow> MinHeap_smallest d 0 = Some 0"
  by (simp add: MinHeap_smallest_def INT_MAX_def INT_MIN_def Let_def)

lemma MinHeap_bubbleDown_wrapped:
  "int_of_size_t (length d) \<le> 1 \<Longrightarrow> MinHeap_bubbleDown d 0 = Some d"
  by (subst MinHeap_bubbleDown.simps) (simp add: MinHeap_smallest_wrapped)

lemma MinHeap_smallest_replicate: "MinHeap_smallest (replicate n x) 0 = Some 0"
proof -
  have 1: "\<not> (1 < int_of_size_t n \<and> replicate n x ! (nat 1) < replicate n x ! (nat 0))"
  proof
    assume a: "1 < int_of_size_t n \<and> replicate n x ! (nat 1) < replicate n x ! (nat 0)"
    then have "1 < int n" using int_of_size_t_le [of n] by simp
    then have "replicate n x ! nat 1 = x" and "replicate n x ! nat 0 = x" by simp_all
    with a show False by simp
  qed
  have 2: "\<not> (2 < int_of_size_t n \<and> replicate n x ! (nat 2) < replicate n x ! (nat 0))"
  proof
    assume a: "2 < int_of_size_t n \<and> replicate n x ! (nat 2) < replicate n x ! (nat 0)"
    then have "2 < int n" using int_of_size_t_le [of n] by simp
    then have "replicate n x ! nat 2 = x" and "replicate n x ! nat 0 = x" by simp_all
    with a show False by simp
  qed
  from 1 2 show ?thesis
    by (simp add: MinHeap_smallest_def INT_MAX_def INT_MIN_def Let_def)
qed

lemma MinHeap_bubbleDown_replicate:
  "MinHeap_bubbleDown (replicate n x) 0 = Some (replicate n x)"
  by (subst MinHeap_bubbleDown.simps) (simp add: MinHeap_smallest_replicate)

lemma MinHeap_dequeue_replicate:
  assumes "elems h = replicate (Suc n) x"
  shows "MinHeap_dequeue h = (Inr (), h\<lparr>elems := replicate n x\<rparr>)"
proof -
  have "(elems h)[0 := last (elems h)] = replicate (Suc n) x"
    using assms by simp
  then have "butlast ((elems h)[0 := last (elems h)]) = replicate n x"
    by (simp only: butlast_replicate_Suc)
  moreover have "elems h \<noteq> []" using assms by simp
  ultimately show ?thesis
    by (simp add: MinHeap_dequeue_nonempty MinHeap_bubbleDown_replicate Let_def)
qed

lemma MinHeap_dequeue_wrapped:
  assumes "elems h = replicate N a @ [b]" and "0 < N" and "int_of_size_t N \<le> 1"
  shows "MinHeap_dequeue h = (Inr (), h\<lparr>elems := (replicate N a)[0 := b]\<rparr>)"
proof -
  have "(elems h)[0 := last (elems h)] = (replicate N a)[0 := b] @ [b]"
    using assms(1,2) by (simp add: list_update_append1)
  then have d: "butlast ((elems h)[0 := last (elems h)]) = (replicate N a)[0 := b]"
    by (simp only: butlast_snoc)
  have "MinHeap_bubbleDown ((replicate N a)[0 := b]) 0 = Some ((replicate N a)[0 := b])"
    using assms(3) by (intro MinHeap_bubbleDown_wrapped) simp
  moreover have "elems h \<noteq> []" using assms(1) by simp
  moreover have "(replicate N a)[0 := b] \<noteq> []" using assms(2) by simp
  ultimately show ?thesis
    by (simp add: MinHeap_dequeue_nonempty d Let_def)
qed

lemma MinHeap_dequeue_root_replaced:
  assumes "elems h = (replicate N a)[0 := b]" and "1 < N"
  shows "MinHeap_dequeue h = (Inr (), h\<lparr>elems := replicate (N - 1) a\<rparr>)"
proof -
  obtain n where N: "N = Suc n" using assms(2) by (cases N) simp_all
  have "last (elems h) = a"
    using assms by (simp add: last_list_update)
  then have "(elems h)[0 := last (elems h)] = (replicate N a)[0 := replicate N a ! 0]"
    using assms by simp
  then have "(elems h)[0 := last (elems h)] = replicate (Suc n) a"
    unfolding list_update_id N .
  then have "butlast ((elems h)[0 := last (elems h)]) = replicate n a"
    by (simp only: butlast_replicate_Suc)
  moreover have "elems h \<noteq> []" using assms by simp
  ultimately show ?thesis
    using N by (simp add: MinHeap_dequeue_nonempty MinHeap_bubbleDown_replicate Let_def)
qed

lemma MinHeap_drain_empty: "elems h = [] \<Longrightarrow> MinHeap_drain h = ([], Inr (), h)"
  by (subst MinHeap_drain.simps) (simp add: MinHeap_isEmpty_def vec_empty_def)

lemma MinHeap_drain_step:
  assumes "elems h \<noteq> []" and "MinHeap_dequeue h = (Inr (), h')"
  shows "MinHeap_drain h = (hd (elems h) # fst (MinHeap_drain h'), snd (MinHeap_drain h'))"
  using assms
  by (subst MinHeap_drain.simps)
     (simp add: MinHeap_isEmpty_def MinHeap_peek_def vec_empty_def split_beta)

lemma MinHeap_drain_stops:
  assumes "elems h \<noteq> []" and "MinHeap_dequeue h = (Inl e, h')"
  shows "MinHeap_drain h = ([hd (elems h)], Inl e, h')"
  using assms
  by (subst MinHeap_drain.simps)
     (simp add: MinHeap_isEmpty_def MinHeap_peek_def vec_empty_def split_beta)

lemma MinHeap_drain_replicate:
  assumes "elems h = replicate n x"
  shows "fst (MinHeap_drain h) = replicate n x \<and> fst (snd (MinHeap_drain h)) = Inr ()"
  using assms
proof (induction n arbitrary: h)
  case 0
  then show ?case by (simp add: MinHeap_drain_empty)
next
  case (Suc n)
  have d: "MinHeap_dequeue h = (Inr (), h\<lparr>elems := replicate n x\<rparr>)"
    using Suc.prems by (rule MinHeap_dequeue_replicate)
  have ne: "elems h \<noteq> []" and hd: "hd (elems h) = x" using Suc.prems by simp_all
  have "elems (h\<lparr>elems := replicate n x\<rparr>) = replicate n x" by simp
  from Suc.IH [OF this] show ?case
    by (simp add: MinHeap_drain_step [OF ne d] hd)
qed

lemma MinHeap_drain_wrapped:
  assumes "elems h = replicate N a @ [b]" and "1 < N" and "int_of_size_t N \<le> 1"
  shows "fst (MinHeap_drain h) = a # b # replicate (N - 1) a"
proof -
  let ?h1 = "h\<lparr>elems := (replicate N a)[0 := b]\<rparr>"
  let ?h2 = "?h1\<lparr>elems := replicate (N - 1) a\<rparr>"
  have N: "0 < N" using assms(2) by simp
  have d1: "MinHeap_dequeue h = (Inr (), ?h1)"
    using assms(1) N assms(3) by (rule MinHeap_dequeue_wrapped)
  have d2: "MinHeap_dequeue ?h1 = (Inr (), ?h2)"
    using assms(2) by (intro MinHeap_dequeue_root_replaced) simp_all
  have ne: "elems h \<noteq> []" "elems ?h1 \<noteq> []" using assms(1) N by simp_all
  have hd: "hd (elems h) = a" "hd ((replicate N a)[0 := b]) = b"
    using assms(1) N by (simp_all add: hd_append hd_conv_nth)
  have "fst (MinHeap_drain ?h2) = replicate (N - 1) a"
    using MinHeap_drain_replicate [of ?h2 "N - 1" a] by simp
  then show ?thesis
    by (simp add: MinHeap_drain_step [OF ne(1) d1] MinHeap_drain_step [OF ne(2) d2] hd)
qed

section \<open>MaxHeap: removal where no index arithmetic goes wrong, and where the size wraps\<close>

lemma MaxHeap_dequeue_nonempty:
  assumes "elems h \<noteq> []"
  shows "MaxHeap_dequeue h =
           (let d = butlast ((elems h)[0 := last (elems h)]) in
            if d \<noteq> []
            then (case MaxHeap_bubbleDown d 0 of
                    None \<Rightarrow> (Inl undefined_behaviour, h\<lparr>elems := d\<rparr>)
                  | Some d' \<Rightarrow> (Inr (), h\<lparr>elems := d'\<rparr>))
            else (Inr (), h\<lparr>elems := d\<rparr>))"
  using assms
  by (simp add: MaxHeap_dequeue_def vec_empty_def vec_pop_back_def Let_def
        split: option.splits)

lemma MaxHeap_largest_wrapped:
  "int_of_size_t (length d) \<le> 1 \<Longrightarrow> MaxHeap_largest d 0 = Some 0"
  by (simp add: MaxHeap_largest_def INT_MAX_def INT_MIN_def Let_def)

lemma MaxHeap_bubbleDown_wrapped:
  "int_of_size_t (length d) \<le> 1 \<Longrightarrow> MaxHeap_bubbleDown d 0 = Some d"
  by (subst MaxHeap_bubbleDown.simps) (simp add: MaxHeap_largest_wrapped)

lemma MaxHeap_largest_replicate: "MaxHeap_largest (replicate n x) 0 = Some 0"
proof -
  have 1: "\<not> (1 < int_of_size_t n \<and> replicate n x ! (nat 1) > replicate n x ! (nat 0))"
  proof
    assume a: "1 < int_of_size_t n \<and> replicate n x ! (nat 1) > replicate n x ! (nat 0)"
    then have "1 < int n" using int_of_size_t_le [of n] by simp
    then have "replicate n x ! nat 1 = x" and "replicate n x ! nat 0 = x" by simp_all
    with a show False by simp
  qed
  have 2: "\<not> (2 < int_of_size_t n \<and> replicate n x ! (nat 2) > replicate n x ! (nat 0))"
  proof
    assume a: "2 < int_of_size_t n \<and> replicate n x ! (nat 2) > replicate n x ! (nat 0)"
    then have "2 < int n" using int_of_size_t_le [of n] by simp
    then have "replicate n x ! nat 2 = x" and "replicate n x ! nat 0 = x" by simp_all
    with a show False by simp
  qed
  from 1 2 show ?thesis
    by (simp add: MaxHeap_largest_def INT_MAX_def INT_MIN_def Let_def)
qed

lemma MaxHeap_bubbleDown_replicate:
  "MaxHeap_bubbleDown (replicate n x) 0 = Some (replicate n x)"
  by (subst MaxHeap_bubbleDown.simps) (simp add: MaxHeap_largest_replicate)

lemma MaxHeap_dequeue_replicate:
  assumes "elems h = replicate (Suc n) x"
  shows "MaxHeap_dequeue h = (Inr (), h\<lparr>elems := replicate n x\<rparr>)"
proof -
  have "(elems h)[0 := last (elems h)] = replicate (Suc n) x"
    using assms by simp
  then have "butlast ((elems h)[0 := last (elems h)]) = replicate n x"
    by (simp only: butlast_replicate_Suc)
  moreover have "elems h \<noteq> []" using assms by simp
  ultimately show ?thesis
    by (simp add: MaxHeap_dequeue_nonempty MaxHeap_bubbleDown_replicate Let_def)
qed

lemma MaxHeap_dequeue_wrapped:
  assumes "elems h = replicate N a @ [b]" and "0 < N" and "int_of_size_t N \<le> 1"
  shows "MaxHeap_dequeue h = (Inr (), h\<lparr>elems := (replicate N a)[0 := b]\<rparr>)"
proof -
  have "(elems h)[0 := last (elems h)] = (replicate N a)[0 := b] @ [b]"
    using assms(1,2) by (simp add: list_update_append1)
  then have d: "butlast ((elems h)[0 := last (elems h)]) = (replicate N a)[0 := b]"
    by (simp only: butlast_snoc)
  have "MaxHeap_bubbleDown ((replicate N a)[0 := b]) 0 = Some ((replicate N a)[0 := b])"
    using assms(3) by (intro MaxHeap_bubbleDown_wrapped) simp
  moreover have "elems h \<noteq> []" using assms(1) by simp
  moreover have "(replicate N a)[0 := b] \<noteq> []" using assms(2) by simp
  ultimately show ?thesis
    by (simp add: MaxHeap_dequeue_nonempty d Let_def)
qed

lemma MaxHeap_dequeue_root_replaced:
  assumes "elems h = (replicate N a)[0 := b]" and "1 < N"
  shows "MaxHeap_dequeue h = (Inr (), h\<lparr>elems := replicate (N - 1) a\<rparr>)"
proof -
  obtain n where N: "N = Suc n" using assms(2) by (cases N) simp_all
  have "last (elems h) = a"
    using assms by (simp add: last_list_update)
  then have "(elems h)[0 := last (elems h)] = (replicate N a)[0 := replicate N a ! 0]"
    using assms by simp
  then have "(elems h)[0 := last (elems h)] = replicate (Suc n) a"
    unfolding list_update_id N .
  then have "butlast ((elems h)[0 := last (elems h)]) = replicate n a"
    by (simp only: butlast_replicate_Suc)
  moreover have "elems h \<noteq> []" using assms by simp
  ultimately show ?thesis
    using N by (simp add: MaxHeap_dequeue_nonempty MaxHeap_bubbleDown_replicate Let_def)
qed

lemma MaxHeap_drain_empty: "elems h = [] \<Longrightarrow> MaxHeap_drain h = ([], Inr (), h)"
  by (subst MaxHeap_drain.simps) (simp add: MaxHeap_isEmpty_def vec_empty_def)

lemma MaxHeap_drain_step:
  assumes "elems h \<noteq> []" and "MaxHeap_dequeue h = (Inr (), h')"
  shows "MaxHeap_drain h = (hd (elems h) # fst (MaxHeap_drain h'), snd (MaxHeap_drain h'))"
  using assms
  by (subst MaxHeap_drain.simps)
     (simp add: MaxHeap_isEmpty_def MaxHeap_peek_def vec_empty_def split_beta)

lemma MaxHeap_drain_stops:
  assumes "elems h \<noteq> []" and "MaxHeap_dequeue h = (Inl e, h')"
  shows "MaxHeap_drain h = ([hd (elems h)], Inl e, h')"
  using assms
  by (subst MaxHeap_drain.simps)
     (simp add: MaxHeap_isEmpty_def MaxHeap_peek_def vec_empty_def split_beta)

lemma MaxHeap_drain_replicate:
  assumes "elems h = replicate n x"
  shows "fst (MaxHeap_drain h) = replicate n x \<and> fst (snd (MaxHeap_drain h)) = Inr ()"
  using assms
proof (induction n arbitrary: h)
  case 0
  then show ?case by (simp add: MaxHeap_drain_empty)
next
  case (Suc n)
  have d: "MaxHeap_dequeue h = (Inr (), h\<lparr>elems := replicate n x\<rparr>)"
    using Suc.prems by (rule MaxHeap_dequeue_replicate)
  have ne: "elems h \<noteq> []" and hd: "hd (elems h) = x" using Suc.prems by simp_all
  have "elems (h\<lparr>elems := replicate n x\<rparr>) = replicate n x" by simp
  from Suc.IH [OF this] show ?case
    by (simp add: MaxHeap_drain_step [OF ne d] hd)
qed

lemma MaxHeap_drain_wrapped:
  assumes "elems h = replicate N a @ [b]" and "1 < N" and "int_of_size_t N \<le> 1"
  shows "fst (MaxHeap_drain h) = a # b # replicate (N - 1) a"
proof -
  let ?h1 = "h\<lparr>elems := (replicate N a)[0 := b]\<rparr>"
  let ?h2 = "?h1\<lparr>elems := replicate (N - 1) a\<rparr>"
  have N: "0 < N" using assms(2) by simp
  have d1: "MaxHeap_dequeue h = (Inr (), ?h1)"
    using assms(1) N assms(3) by (rule MaxHeap_dequeue_wrapped)
  have d2: "MaxHeap_dequeue ?h1 = (Inr (), ?h2)"
    using assms(2) by (intro MaxHeap_dequeue_root_replaced) simp_all
  have ne: "elems h \<noteq> []" "elems ?h1 \<noteq> []" using assms(1) N by simp_all
  have hd: "hd (elems h) = a" "hd ((replicate N a)[0 := b]) = b"
    using assms(1) N by (simp_all add: hd_append hd_conv_nth)
  have "fst (MaxHeap_drain ?h2) = replicate (N - 1) a"
    using MaxHeap_drain_replicate [of ?h2 "N - 1" a] by simp
  then show ?thesis
    by (simp add: MaxHeap_drain_step [OF ne(1) d1] MaxHeap_drain_step [OF ne(2) d2] hd)
qed

section \<open>MinHeap: the reserved capacity is not observable, and small heaps drain\<close>

lemma MinHeap_call_elems_cong:
  assumes "elems h1 = elems h2"
  shows "fst (MinHeap_call c h1) = fst (MinHeap_call c h2) \<and>
         elems (snd (MinHeap_call c h1)) = elems (snd (MinHeap_call c h2))"
proof (cases c)
  case (Enqueue x)
  then show ?thesis
    using assms by (simp add: MinHeap_call_Enqueue elems_MinHeap_enqueue)
next
  case Dequeue
  then show ?thesis
    using assms
    by (simp add: MinHeap_call_def MinHeap_dequeue_def vec_empty_def vec_pop_back_def Let_def
          split: option.splits)
next
  case Peek
  then show ?thesis
    using assms by (simp add: MinHeap_call_def MinHeap_peek_def vec_empty_def)
next
  case GetSize
  then show ?thesis
    using assms by (simp add: MinHeap_call_def MinHeap_getSize_def vec_size_def)
next
  case IsEmpty
  then show ?thesis
    using assms by (simp add: MinHeap_call_def MinHeap_isEmpty_def vec_empty_def)
qed

lemma MinHeap_run_elems_cong:
  "elems h1 = elems h2 \<Longrightarrow>
   fst (MinHeap_run cs h1) = fst (MinHeap_run cs h2) \<and>
   elems (snd (MinHeap_run cs h1)) = elems (snd (MinHeap_run cs h2))"
proof (induction cs arbitrary: h1 h2)
  case Nil
  then show ?case by simp
next
  case (Cons c cs)
  have "fst (MinHeap_call c h1) = fst (MinHeap_call c h2)"
    and e: "elems (snd (MinHeap_call c h1)) = elems (snd (MinHeap_call c h2))"
    using MinHeap_call_elems_cong [OF Cons.prems, of c] by simp_all
  then show ?case
    using Cons.IH [OF e] by (simp add: MinHeap_run_Cons)
qed

lemma MinHeap_smallest_returns:
  "0 \<le> i \<Longrightarrow> i < 2 ^ 30 - 1 \<Longrightarrow> \<exists>s. MinHeap_smallest d i = Some s"
  by (simp add: MinHeap_smallest_def INT_MAX_def INT_MIN_def Let_def)

lemma MinHeap_bubbleDown_returns:
  "length d < 2 ^ 30 \<Longrightarrow> 0 \<le> i \<Longrightarrow> i < 2 ^ 30 - 1 \<Longrightarrow> \<exists>d'. MinHeap_bubbleDown d i = Some d'"
proof (induction d i rule: MinHeap_bubbleDown.induct)
  case (1 d index)
  obtain s where s: "MinHeap_smallest d index = Some s"
    using MinHeap_smallest_returns [OF "1.prems"(2,3)] by blast
  show ?case
  proof (cases "s = index")
    case True
    then show ?thesis using s by (subst MinHeap_bubbleDown.simps) simp
  next
    case False
    then have "index < s" and "s < int_of_size_t (length d)"
      using MinHeap_smallest_cases [OF s] by simp_all
    moreover have "length d < 2 ^ 31" using "1.prems"(1) by simp
    then have "int_of_size_t (length d) = int (length d)" by (rule int_of_size_t_small)
    moreover have "int (length d) < 2 ^ 30"
      using "1.prems"(1) by (metis of_nat_less_iff of_nat_numeral of_nat_power)
    ultimately have "0 \<le> s" and "s < 2 ^ 30 - 1" using "1.prems"(2) by simp_all
    moreover have "length (swap_at d (nat index) (nat s)) < 2 ^ 30"
      using "1.prems"(1) by simp
    ultimately have "\<exists>d'. MinHeap_bubbleDown (swap_at d (nat index) (nat s)) s = Some d'"
      using "1.IH" [OF s False] by blast
    then show ?thesis using s False by (subst MinHeap_bubbleDown.simps) simp
  qed
qed

lemma MinHeap_dequeue_returns_small:
  assumes "elems h \<noteq> []" and "length (elems h) \<le> 2 ^ 30"
  shows "\<exists>h'. MinHeap_dequeue h = (Inr (), h')"
proof -
  let ?d = "butlast ((elems h)[0 := last (elems h)])"
  have "length ?d < 2 ^ 30" using assms by simp
  then obtain d' where "MinHeap_bubbleDown ?d 0 = Some d'"
    using MinHeap_bubbleDown_returns [of ?d 0] by auto
  then show ?thesis
    using assms(1) by (simp add: MinHeap_dequeue_nonempty Let_def)
qed

lemma MinHeap_drain_ends:
  "(\<forall>u. fst (snd (MinHeap_drain g)) = Inr u \<longrightarrow> vec_empty (snd (snd (MinHeap_drain g)))) \<and>
   (\<forall>e. fst (snd (MinHeap_drain g)) = Inl e \<longrightarrow>
          e = undefined_behaviour \<and> 2 ^ 30 < length (elems g))"
proof (induction "length (elems g)" arbitrary: g rule: less_induct)
  case less
  show ?case
  proof (cases "elems g = []")
    case True
    then show ?thesis by (simp add: MinHeap_drain_empty vec_empty_def)
  next
    case False
    obtain r h' where d: "MinHeap_dequeue g = (r, h')" by (cases "MinHeap_dequeue g")
    show ?thesis
    proof (cases r)
      case (Inl e)
      have "e = undefined_behaviour"
        using d Inl False MinHeap_dequeue_fails [of g e h'] by simp
      moreover have "2 ^ 30 < length (elems g)"
        using MinHeap_dequeue_returns_small [OF False] d Inl by fastforce
      ultimately show ?thesis
        using d Inl by (simp add: MinHeap_drain_stops [OF False])
    next
      case (Inr u)
      then have d': "MinHeap_dequeue g = (Inr (), h')" using d by simp
      then have l: "length (elems h') = length (elems g) - 1"
        using MinHeap_dequeue_returns by blast
      then have "length (elems h') < length (elems g)" using False by simp
      from less [OF this] l show ?thesis
        by (auto simp add: MinHeap_drain_step [OF False d'])
    qed
  qed
qed

lemma MinHeap_drain_ends_case:
  "(case MinHeap_drain g of
      (xs, Inr u, h') \<Rightarrow> vec_empty h'
    | (xs, Inl e, h') \<Rightarrow> e = undefined_behaviour \<and> 2 ^ 30 < length (elems g))"
  using MinHeap_drain_ends [of g] by (auto split: prod.splits sum.splits)

lemmas MinHeap_eval =
  MinHeap_run_Cons MinHeap_call_def MinHeap_enqueue_def MinHeap_dequeue_def MinHeap_peek_def
  MinHeap_getSize_def MinHeap_isEmpty_def MinHeap_new_def vec_new_def vec_size_def
  vec_empty_def vec_push_back_def vec_pop_back_def MinHeap_bubbleUp.simps
  MinHeap_bubbleDown.simps MinHeap_smallest_def swap_at_def Let_def MinHeap_drain.simps
  int_of_size_t_def INT_MAX_def INT_MIN_def

section \<open>MaxHeap: the reserved capacity is not observable, and small heaps drain\<close>

lemma MaxHeap_call_elems_cong:
  assumes "elems h1 = elems h2"
  shows "fst (MaxHeap_call c h1) = fst (MaxHeap_call c h2) \<and>
         elems (snd (MaxHeap_call c h1)) = elems (snd (MaxHeap_call c h2))"
proof (cases c)
  case (Enqueue x)
  then show ?thesis
    using assms by (simp add: MaxHeap_call_Enqueue elems_MaxHeap_enqueue)
next
  case Dequeue
  then show ?thesis
    using assms
    by (simp add: MaxHeap_call_def MaxHeap_dequeue_def vec_empty_def vec_pop_back_def Let_def
          split: option.splits)
next
  case Peek
  then show ?thesis
    using assms by (simp add: MaxHeap_call_def MaxHeap_peek_def vec_empty_def)
next
  case GetSize
  then show ?thesis
    using assms by (simp add: MaxHeap_call_def MaxHeap_getSize_def vec_size_def)
next
  case IsEmpty
  then show ?thesis
    using assms by (simp add: MaxHeap_call_def MaxHeap_isEmpty_def vec_empty_def)
qed

lemma MaxHeap_run_elems_cong:
  "elems h1 = elems h2 \<Longrightarrow>
   fst (MaxHeap_run cs h1) = fst (MaxHeap_run cs h2) \<and>
   elems (snd (MaxHeap_run cs h1)) = elems (snd (MaxHeap_run cs h2))"
proof (induction cs arbitrary: h1 h2)
  case Nil
  then show ?case by simp
next
  case (Cons c cs)
  have "fst (MaxHeap_call c h1) = fst (MaxHeap_call c h2)"
    and e: "elems (snd (MaxHeap_call c h1)) = elems (snd (MaxHeap_call c h2))"
    using MaxHeap_call_elems_cong [OF Cons.prems, of c] by simp_all
  then show ?case
    using Cons.IH [OF e] by (simp add: MaxHeap_run_Cons)
qed

lemma MaxHeap_largest_returns:
  "0 \<le> i \<Longrightarrow> i < 2 ^ 30 - 1 \<Longrightarrow> \<exists>s. MaxHeap_largest d i = Some s"
  by (simp add: MaxHeap_largest_def INT_MAX_def INT_MIN_def Let_def)

lemma MaxHeap_bubbleDown_returns:
  "length d < 2 ^ 30 \<Longrightarrow> 0 \<le> i \<Longrightarrow> i < 2 ^ 30 - 1 \<Longrightarrow> \<exists>d'. MaxHeap_bubbleDown d i = Some d'"
proof (induction d i rule: MaxHeap_bubbleDown.induct)
  case (1 d index)
  obtain s where s: "MaxHeap_largest d index = Some s"
    using MaxHeap_largest_returns [OF "1.prems"(2,3)] by blast
  show ?case
  proof (cases "s = index")
    case True
    then show ?thesis using s by (subst MaxHeap_bubbleDown.simps) simp
  next
    case False
    then have "index < s" and "s < int_of_size_t (length d)"
      using MaxHeap_largest_cases [OF s] by simp_all
    moreover have "length d < 2 ^ 31" using "1.prems"(1) by simp
    then have "int_of_size_t (length d) = int (length d)" by (rule int_of_size_t_small)
    moreover have "int (length d) < 2 ^ 30"
      using "1.prems"(1) by (metis of_nat_less_iff of_nat_numeral of_nat_power)
    ultimately have "0 \<le> s" and "s < 2 ^ 30 - 1" using "1.prems"(2) by simp_all
    moreover have "length (swap_at d (nat index) (nat s)) < 2 ^ 30"
      using "1.prems"(1) by simp
    ultimately have "\<exists>d'. MaxHeap_bubbleDown (swap_at d (nat index) (nat s)) s = Some d'"
      using "1.IH" [OF s False] by blast
    then show ?thesis using s False by (subst MaxHeap_bubbleDown.simps) simp
  qed
qed

lemma MaxHeap_dequeue_returns_small:
  assumes "elems h \<noteq> []" and "length (elems h) \<le> 2 ^ 30"
  shows "\<exists>h'. MaxHeap_dequeue h = (Inr (), h')"
proof -
  let ?d = "butlast ((elems h)[0 := last (elems h)])"
  have "length ?d < 2 ^ 30" using assms by simp
  then obtain d' where "MaxHeap_bubbleDown ?d 0 = Some d'"
    using MaxHeap_bubbleDown_returns [of ?d 0] by auto
  then show ?thesis
    using assms(1) by (simp add: MaxHeap_dequeue_nonempty Let_def)
qed

lemma MaxHeap_drain_ends:
  "(\<forall>u. fst (snd (MaxHeap_drain g)) = Inr u \<longrightarrow> vec_empty (snd (snd (MaxHeap_drain g)))) \<and>
   (\<forall>e. fst (snd (MaxHeap_drain g)) = Inl e \<longrightarrow>
          e = undefined_behaviour \<and> 2 ^ 30 < length (elems g))"
proof (induction "length (elems g)" arbitrary: g rule: less_induct)
  case less
  show ?case
  proof (cases "elems g = []")
    case True
    then show ?thesis by (simp add: MaxHeap_drain_empty vec_empty_def)
  next
    case False
    obtain r h' where d: "MaxHeap_dequeue g = (r, h')" by (cases "MaxHeap_dequeue g")
    show ?thesis
    proof (cases r)
      case (Inl e)
      have "e = undefined_behaviour"
        using d Inl False MaxHeap_dequeue_fails [of g e h'] by simp
      moreover have "2 ^ 30 < length (elems g)"
        using MaxHeap_dequeue_returns_small [OF False] d Inl by fastforce
      ultimately show ?thesis
        using d Inl by (simp add: MaxHeap_drain_stops [OF False])
    next
      case (Inr u)
      then have d': "MaxHeap_dequeue g = (Inr (), h')" using d by simp
      then have l: "length (elems h') = length (elems g) - 1"
        using MaxHeap_dequeue_returns by blast
      then have "length (elems h') < length (elems g)" using False by simp
      from less [OF this] l show ?thesis
        by (auto simp add: MaxHeap_drain_step [OF False d'])
    qed
  qed
qed

lemma MaxHeap_drain_ends_case:
  "(case MaxHeap_drain g of
      (xs, Inr u, h') \<Rightarrow> vec_empty h'
    | (xs, Inl e, h') \<Rightarrow> e = undefined_behaviour \<and> 2 ^ 30 < length (elems g))"
  using MaxHeap_drain_ends [of g] by (auto split: prod.splits sum.splits)

lemmas MaxHeap_eval =
  MaxHeap_run_Cons MaxHeap_call_def MaxHeap_enqueue_def MaxHeap_dequeue_def MaxHeap_peek_def
  MaxHeap_getSize_def MaxHeap_isEmpty_def MaxHeap_new_def vec_new_def vec_size_def
  vec_empty_def vec_push_back_def vec_pop_back_def MaxHeap_bubbleUp.simps
  MaxHeap_bubbleDown.simps MaxHeap_largest_def swap_at_def Let_def MaxHeap_drain.simps
  int_of_size_t_def INT_MAX_def INT_MIN_def

section \<open>MinHeap: the downward repair that runs into the signed overflow\<close>

text \<open>
  In a heap of \<open>2^30\<close> equal elements \<open>a\<close> whose root has been replaced by an element \<open>b\<close>
  that must sink, \<open>bubbleDown(0)\<close> moves \<open>b\<close> to the left child at every level, through the
  indices \<open>0, 1, 3, \<dots>, 2^30 - 1\<close>, and at the last of them evaluates \<open>2 * index + 2\<close>, which
  is \<open>2^31\<close> and does not fit an \<open>int\<close>.
\<close>

lemma MinHeap_sink_overflow: "MinHeap_bubbleDown d (2 ^ 30 - 1) = None"
  by (subst MinHeap_bubbleDown.simps) (simp add: MinHeap_smallest_def INT_MAX_def)

lemma MinHeap_smallest_left:
  assumes "0 \<le> i" and "2 * i + 2 \<le> INT_MAX"
    and "2 * i + 1 < int_of_size_t (length d)"
    and "d ! (nat (2 * i + 1)) < d ! (nat i)"
    and "\<not> (2 * i + 2 < int_of_size_t (length d) \<and> d ! (nat (2 * i + 2)) < d ! (nat (2 * i + 1)))"
  shows "MinHeap_smallest d i = Some (2 * i + 1)"
  using assms by (simp add: MinHeap_smallest_def Let_def INT_MIN_def INT_MAX_def)

lemma MinHeap_sink_step:
  fixes a b :: "'a::linorder"
  assumes "a < b" and "1 \<le> I" and "I \<le> 2 ^ 29"
  shows "MinHeap_bubbleDown ((replicate (2 ^ 30) a)[I - 1 := b]) (int I - 1) =
         MinHeap_bubbleDown ((replicate (2 ^ 30) a)[2 * I - 1 := b]) (int (2 * I) - 1)"
proof -
  define d where "d = (replicate (2 ^ 30) a)[I - 1 := b]"
  define i where "i = int I - 1"
  have I: "int I \<le> 2 ^ 29"
    using assms(3) by (metis of_nat_le_iff of_nat_numeral of_nat_power)
  have i: "0 \<le> i" "i \<le> 2 ^ 29 - 1" using I assms(2) by (simp_all add: i_def)
  have len: "int_of_size_t (length d) = 2 ^ 30"
    using int_of_size_t_small [of "2 ^ 30"] by (simp add: d_def)
  have idx: "nat i = I - 1" "nat (2 * i + 1) = 2 * I - 1" "nat (2 * i + 2) = 2 * I"
    using assms(2) by (simp_all add: i_def nat_diff_distrib' nat_mult_distrib)
  have v: "d ! (I - 1) = b" "d ! (2 * I - 1) = a"
    using assms(2,3) by (simp_all add: d_def)
  have 1: "2 * i + 2 \<le> INT_MAX" using i by (simp add: INT_MAX_def)
  have 2: "2 * i + 1 < int_of_size_t (length d)" using i by (simp add: len)
  have 3: "d ! (nat (2 * i + 1)) < d ! (nat i)" using assms(1) by (simp only: idx v)
  have 4: "\<not> (2 * i + 2 < int_of_size_t (length d) \<and> d ! (nat (2 * i + 2)) < d ! (nat (2 * i + 1)))"
  proof
    assume r: "2 * i + 2 < int_of_size_t (length d) \<and> d ! (nat (2 * i + 2)) < d ! (nat (2 * i + 1))"
    then have "2 * int I < 2 ^ 30" by (simp add: len i_def)
    then have "int (2 * I) < int (2 ^ 30)" by simp
    then have "2 * I < 2 ^ 30" by (simp only: of_nat_less_iff)
    then have "d ! (2 * I) = a" using assms(2) by (simp add: d_def)
    with r show False by (simp only: idx v) simp
  qed
  have sm: "MinHeap_smallest d i = Some (2 * i + 1)"
    using i(1) 1 2 3 4 by (rule MinHeap_smallest_left)
  have "(replicate (2 ^ 30) a)[I - 1 := a] = replicate (2 ^ 30) a"
    using assms(3) list_update_id [of "replicate (2 ^ 30) a" "I - 1"] by simp
  then have sw: "swap_at d (I - 1) (2 * I - 1) = (replicate (2 ^ 30) a)[2 * I - 1 := b]"
    unfolding swap_at_def v by (simp add: d_def)
  have ne: "2 * i + 1 \<noteq> i" using i by simp
  have "MinHeap_bubbleDown d i = MinHeap_bubbleDown (swap_at d (nat i) (nat (2 * i + 1))) (2 * i + 1)"
    by (subst MinHeap_bubbleDown.simps) (simp add: sm ne)
  also have "\<dots> = MinHeap_bubbleDown ((replicate (2 ^ 30) a)[2 * I - 1 := b]) (2 * i + 1)"
    by (simp only: idx sw)
  also have "2 * i + 1 = int (2 * I) - 1" by (simp add: i_def)
  finally show ?thesis by (simp only: d_def i_def)
qed

lemma MinHeap_sink_chain:
  fixes a b :: "'a::linorder"
  assumes "a < b" and "k \<le> 30"
  shows "MinHeap_bubbleDown ((replicate (2 ^ 30) a)[2 ^ k - 1 := b]) (int (2 ^ k) - 1) = None"
  using assms(2)
proof (induction "30 - k" arbitrary: k)
  case 0
  then have "k = 30" by simp
  then show ?case using MinHeap_sink_overflow by simp
next
  case (Suc m)
  then have k: "k \<le> 29" by simp
  then have "(2::nat) ^ k \<le> 2 ^ 29" by (intro power_increasing) simp_all
  moreover have "(1::nat) \<le> 2 ^ k" by simp
  ultimately have
    "MinHeap_bubbleDown ((replicate (2 ^ 30) a)[2 ^ k - 1 := b]) (int (2 ^ k) - 1) =
     MinHeap_bubbleDown ((replicate (2 ^ 30) a)[2 * 2 ^ k - 1 := b]) (int (2 * 2 ^ k) - 1)"
    using assms(1) by (intro MinHeap_sink_step)
  moreover have "m = 30 - Suc k" and "Suc k \<le> 30" using Suc.hyps(2) k by simp_all
  then have
    "MinHeap_bubbleDown ((replicate (2 ^ 30) a)[2 ^ Suc k - 1 := b]) (int (2 ^ Suc k) - 1) = None"
    by (rule Suc.hyps(1))
  ultimately show ?case by (simp only: power_Suc)
qed

lemma MinHeap_sink_from_root:
  fixes a b :: "'a::linorder"
  assumes "a < b"
  shows "MinHeap_bubbleDown ((replicate (2 ^ 30) a)[0 := b]) 0 = None"
  using MinHeap_sink_chain [OF assms, of 0] by simp

lemma MinHeap_dequeue_overflow:
  fixes a b :: "'a::linorder"
  assumes "a < b" and "elems h = replicate (2 ^ 30) a @ [b]"
  shows "MinHeap_dequeue h = (Inl undefined_behaviour, h\<lparr>elems := (replicate (2 ^ 30) a)[0 := b]\<rparr>)"
proof -
  have "(elems h)[0 := last (elems h)] = (replicate (2 ^ 30) a)[0 := b] @ [b]"
    using assms(2) by (simp add: list_update_append1)
  then have d: "butlast ((elems h)[0 := last (elems h)]) = (replicate (2 ^ 30) a)[0 := b]"
    by (simp only: butlast_snoc)
  have "elems h \<noteq> []" using assms(2) by simp
  moreover have "(replicate (2 ^ 30) a)[0 := b] \<noteq> []" by simp
  ultimately show ?thesis
    using MinHeap_sink_from_root [OF assms(1)]
    by (simp add: MinHeap_dequeue_nonempty d Let_def)
qed


section \<open>MaxHeap: the downward repair that runs into the signed overflow\<close>

text \<open>
  In a heap of \<open>2^30\<close> equal elements \<open>a\<close> whose root has been replaced by an element \<open>b\<close>
  that must sink, \<open>bubbleDown(0)\<close> moves \<open>b\<close> to the left child at every level, through the
  indices \<open>0, 1, 3, \<dots>, 2^30 - 1\<close>, and at the last of them evaluates \<open>2 * index + 2\<close>, which
  is \<open>2^31\<close> and does not fit an \<open>int\<close>.
\<close>

lemma MaxHeap_sink_overflow: "MaxHeap_bubbleDown d (2 ^ 30 - 1) = None"
  by (subst MaxHeap_bubbleDown.simps) (simp add: MaxHeap_largest_def INT_MAX_def)

lemma MaxHeap_largest_left:
  assumes "0 \<le> i" and "2 * i + 2 \<le> INT_MAX"
    and "2 * i + 1 < int_of_size_t (length d)"
    and "d ! (nat (2 * i + 1)) > d ! (nat i)"
    and "\<not> (2 * i + 2 < int_of_size_t (length d) \<and> d ! (nat (2 * i + 2)) > d ! (nat (2 * i + 1)))"
  shows "MaxHeap_largest d i = Some (2 * i + 1)"
  using assms by (simp add: MaxHeap_largest_def Let_def INT_MIN_def INT_MAX_def)

lemma MaxHeap_sink_step:
  fixes a b :: "'a::linorder"
  assumes "b < a" and "1 \<le> I" and "I \<le> 2 ^ 29"
  shows "MaxHeap_bubbleDown ((replicate (2 ^ 30) a)[I - 1 := b]) (int I - 1) =
         MaxHeap_bubbleDown ((replicate (2 ^ 30) a)[2 * I - 1 := b]) (int (2 * I) - 1)"
proof -
  define d where "d = (replicate (2 ^ 30) a)[I - 1 := b]"
  define i where "i = int I - 1"
  have I: "int I \<le> 2 ^ 29"
    using assms(3) by (metis of_nat_le_iff of_nat_numeral of_nat_power)
  have i: "0 \<le> i" "i \<le> 2 ^ 29 - 1" using I assms(2) by (simp_all add: i_def)
  have len: "int_of_size_t (length d) = 2 ^ 30"
    using int_of_size_t_small [of "2 ^ 30"] by (simp add: d_def)
  have idx: "nat i = I - 1" "nat (2 * i + 1) = 2 * I - 1" "nat (2 * i + 2) = 2 * I"
    using assms(2) by (simp_all add: i_def nat_diff_distrib' nat_mult_distrib)
  have v: "d ! (I - 1) = b" "d ! (2 * I - 1) = a"
    using assms(2,3) by (simp_all add: d_def)
  have 1: "2 * i + 2 \<le> INT_MAX" using i by (simp add: INT_MAX_def)
  have 2: "2 * i + 1 < int_of_size_t (length d)" using i by (simp add: len)
  have 3: "d ! (nat (2 * i + 1)) > d ! (nat i)" using assms(1) by (simp only: idx v)
  have 4: "\<not> (2 * i + 2 < int_of_size_t (length d) \<and> d ! (nat (2 * i + 2)) > d ! (nat (2 * i + 1)))"
  proof
    assume r: "2 * i + 2 < int_of_size_t (length d) \<and> d ! (nat (2 * i + 2)) > d ! (nat (2 * i + 1))"
    then have "2 * int I < 2 ^ 30" by (simp add: len i_def)
    then have "int (2 * I) < int (2 ^ 30)" by simp
    then have "2 * I < 2 ^ 30" by (simp only: of_nat_less_iff)
    then have "d ! (2 * I) = a" using assms(2) by (simp add: d_def)
    with r show False by (simp only: idx v) simp
  qed
  have sm: "MaxHeap_largest d i = Some (2 * i + 1)"
    using i(1) 1 2 3 4 by (rule MaxHeap_largest_left)
  have "(replicate (2 ^ 30) a)[I - 1 := a] = replicate (2 ^ 30) a"
    using assms(3) list_update_id [of "replicate (2 ^ 30) a" "I - 1"] by simp
  then have sw: "swap_at d (I - 1) (2 * I - 1) = (replicate (2 ^ 30) a)[2 * I - 1 := b]"
    unfolding swap_at_def v by (simp add: d_def)
  have ne: "2 * i + 1 \<noteq> i" using i by simp
  have "MaxHeap_bubbleDown d i = MaxHeap_bubbleDown (swap_at d (nat i) (nat (2 * i + 1))) (2 * i + 1)"
    by (subst MaxHeap_bubbleDown.simps) (simp add: sm ne)
  also have "\<dots> = MaxHeap_bubbleDown ((replicate (2 ^ 30) a)[2 * I - 1 := b]) (2 * i + 1)"
    by (simp only: idx sw)
  also have "2 * i + 1 = int (2 * I) - 1" by (simp add: i_def)
  finally show ?thesis by (simp only: d_def i_def)
qed

lemma MaxHeap_sink_chain:
  fixes a b :: "'a::linorder"
  assumes "b < a" and "k \<le> 30"
  shows "MaxHeap_bubbleDown ((replicate (2 ^ 30) a)[2 ^ k - 1 := b]) (int (2 ^ k) - 1) = None"
  using assms(2)
proof (induction "30 - k" arbitrary: k)
  case 0
  then have "k = 30" by simp
  then show ?case using MaxHeap_sink_overflow by simp
next
  case (Suc m)
  then have k: "k \<le> 29" by simp
  then have "(2::nat) ^ k \<le> 2 ^ 29" by (intro power_increasing) simp_all
  moreover have "(1::nat) \<le> 2 ^ k" by simp
  ultimately have
    "MaxHeap_bubbleDown ((replicate (2 ^ 30) a)[2 ^ k - 1 := b]) (int (2 ^ k) - 1) =
     MaxHeap_bubbleDown ((replicate (2 ^ 30) a)[2 * 2 ^ k - 1 := b]) (int (2 * 2 ^ k) - 1)"
    using assms(1) by (intro MaxHeap_sink_step)
  moreover have "m = 30 - Suc k" and "Suc k \<le> 30" using Suc.hyps(2) k by simp_all
  then have
    "MaxHeap_bubbleDown ((replicate (2 ^ 30) a)[2 ^ Suc k - 1 := b]) (int (2 ^ Suc k) - 1) = None"
    by (rule Suc.hyps(1))
  ultimately show ?case by (simp only: power_Suc)
qed

lemma MaxHeap_sink_from_root:
  fixes a b :: "'a::linorder"
  assumes "b < a"
  shows "MaxHeap_bubbleDown ((replicate (2 ^ 30) a)[0 := b]) 0 = None"
  using MaxHeap_sink_chain [OF assms, of 0] by simp

lemma MaxHeap_dequeue_overflow:
  fixes a b :: "'a::linorder"
  assumes "b < a" and "elems h = replicate (2 ^ 30) a @ [b]"
  shows "MaxHeap_dequeue h = (Inl undefined_behaviour, h\<lparr>elems := (replicate (2 ^ 30) a)[0 := b]\<rparr>)"
proof -
  have "(elems h)[0 := last (elems h)] = (replicate (2 ^ 30) a)[0 := b] @ [b]"
    using assms(2) by (simp add: list_update_append1)
  then have d: "butlast ((elems h)[0 := last (elems h)]) = (replicate (2 ^ 30) a)[0 := b]"
    by (simp only: butlast_snoc)
  have "elems h \<noteq> []" using assms(2) by simp
  moreover have "(replicate (2 ^ 30) a)[0 := b] \<noteq> []" by simp
  ultimately show ?thesis
    using MaxHeap_sink_from_root [OF assms(1)]
    by (simp add: MaxHeap_dequeue_nonempty d Let_def)
qed


section \<open>MinHeap: call sequences that reach the wrapped sizes\<close>

lemma MinHeap_run_Enqueues_Enqueue:
  "fst (MinHeap_run (replicate n (Enqueue a) @ [Enqueue b]) MinHeap_new)
     = replicate n (Inr Void) @ [Inr Void]"
    "snd (MinHeap_run (replicate n (Enqueue a) @ [Enqueue b]) MinHeap_new)
     = snd (MinHeap_enqueue b (snd (MinHeap_run (replicate n (Enqueue a)) MinHeap_new)))"
  by (simp_all add: MinHeap_run_Enqueues_then(1) MinHeap_run_Cons MinHeap_call_Enqueue)

lemma MinHeap_run_wrapped_insertion:
  assumes "int_of_size_t n \<le> 0"
  shows "elems (snd (MinHeap_run (replicate n (Enqueue a) @ [Enqueue b]) MinHeap_new))
           = replicate n a @ [b]"
proof -
  let ?h = "snd (MinHeap_run (replicate n (Enqueue a)) MinHeap_new)"
  have e: "elems ?h = replicate n a" by (rule MinHeap_run_Enqueues_then(2))
  then have "int_of_size_t (length (elems ?h)) \<le> 0" using assms by simp
  then have "elems (snd (MinHeap_enqueue b ?h)) = elems ?h @ [b]"
    by (rule MinHeap_enqueue_skipped)
  then show ?thesis by (simp only: MinHeap_run_Enqueues_Enqueue(2) e)
qed


section \<open>MaxHeap: call sequences that reach the wrapped sizes\<close>

lemma MaxHeap_run_Enqueues_Enqueue:
  "fst (MaxHeap_run (replicate n (Enqueue a) @ [Enqueue b]) MaxHeap_new)
     = replicate n (Inr Void) @ [Inr Void]"
    "snd (MaxHeap_run (replicate n (Enqueue a) @ [Enqueue b]) MaxHeap_new)
     = snd (MaxHeap_enqueue b (snd (MaxHeap_run (replicate n (Enqueue a)) MaxHeap_new)))"
  by (simp_all add: MaxHeap_run_Enqueues_then(1) MaxHeap_run_Cons MaxHeap_call_Enqueue)

lemma MaxHeap_run_wrapped_insertion:
  assumes "int_of_size_t n \<le> 0"
  shows "elems (snd (MaxHeap_run (replicate n (Enqueue a) @ [Enqueue b]) MaxHeap_new))
           = replicate n a @ [b]"
proof -
  let ?h = "snd (MaxHeap_run (replicate n (Enqueue a)) MaxHeap_new)"
  have e: "elems ?h = replicate n a" by (rule MaxHeap_run_Enqueues_then(2))
  then have "int_of_size_t (length (elems ?h)) \<le> 0" using assms by simp
  then have "elems (snd (MaxHeap_enqueue b ?h)) = elems ?h @ [b]"
    by (rule MaxHeap_enqueue_skipped)
  then show ?thesis by (simp only: MaxHeap_run_Enqueues_Enqueue(2) e)
qed


section \<open>The claims\<close>

text \<open>
  C1. The heap-order invariant does not hold after every call of every sequence of
  insertions starting from an empty heap. After \<open>2^31\<close> insertions of \<open>1\<close> the vector holds
  \<open>2^31\<close> elements; the next call \<open>enqueue(0)\<close> passes \<open>data.size() - 1 = 2^31\<close> to
  \<open>bubbleUp(int index)\<close>, where it is \<open>-2^31\<close>, so the loop \<open>while (index > 0)\<close> is not
  entered and the \<open>0\<close> stays in the last slot, index \<open>2^31 = 2 * 1073741823 + 2\<close>, below
  its parent at index \<open>1073741823\<close>, which holds \<open>1\<close>. In the MaxHeap the same happens
  with \<open>0\<close> and \<open>1\<close> exchanged.
\<close>

theorem C1_heap_order_lost_when_the_index_wraps:
  "fst (MinHeap_run (replicate 2147483648 (Enqueue 1) @ [Enqueue (0::int)]) MinHeap_new)
     = replicate 2147483648 (Inr Void) @ [Inr Void] \<and>
   elems (snd (MinHeap_run (replicate 2147483648 (Enqueue 1) @ [Enqueue (0::int)]) MinHeap_new))
     = replicate 2147483648 1 @ [0] \<and>
   (replicate 2147483648 1 @ [0::int]) ! 1073741823 = 1 \<and>
   (replicate 2147483648 1 @ [0::int]) ! (2 * 1073741823 + 2) = 0 \<and>
   2 * 1073741823 + 2 < length (replicate 2147483648 1 @ [0::int]) \<and>
   fst (MaxHeap_run (replicate 2147483648 (Enqueue 0) @ [Enqueue (1::int)]) MaxHeap_new)
     = replicate 2147483648 (Inr Void) @ [Inr Void] \<and>
   elems (snd (MaxHeap_run (replicate 2147483648 (Enqueue 0) @ [Enqueue (1::int)]) MaxHeap_new))
     = replicate 2147483648 0 @ [1] \<and>
   (replicate 2147483648 0 @ [1::int]) ! 1073741823 = 0 \<and>
   (replicate 2147483648 0 @ [1::int]) ! (2 * 1073741823 + 2) = 1"
proof -
  have w: "int_of_size_t 2147483648 \<le> 0" by (simp add: int_of_size_t_2_31)
  have 1: "(replicate 2147483648 1 @ [0::int]) ! 1073741823 = 1"
    "(replicate 2147483648 1 @ [0::int]) ! (2 * 1073741823 + 2) = 0"
    "2 * 1073741823 + 2 < length (replicate 2147483648 1 @ [0::int])"
    "(replicate 2147483648 0 @ [1::int]) ! 1073741823 = 0"
    "(replicate 2147483648 0 @ [1::int]) ! (2 * 1073741823 + 2) = 1"
    by (simp_all add: nth_append)
  show ?thesis
    using MinHeap_run_Enqueues_Enqueue(1) [of 2147483648 "1::int" 0]
      MinHeap_run_wrapped_insertion [OF w, of "1::int" 0]
      MaxHeap_run_Enqueues_Enqueue(1) [of 2147483648 "0::int" 1]
      MaxHeap_run_wrapped_insertion [OF w, of "0::int" 1] 1
    by blast
qed

text \<open>
  C2. The example of the specification drains in order: \<open>[5, 3, 8, 1, 9, 2]\<close> comes out
  of the MinHeap as \<open>1, 2, 3, 5, 8, 9\<close> and of the MaxHeap as \<open>9, 8, 5, 3, 2, 1\<close>. But
  draining does not yield the inserted elements in sorted order for every sequence of
  insertions. After \<open>2^31\<close> insertions of \<open>1\<close> and one of \<open>0\<close> the MinHeap holds the
  \<open>0\<close> in its last slot (C1). The drain loop reads \<open>1\<close> first; the first \<open>dequeue\<close> moves
  the \<open>0\<close> to the root; the loop then reads \<open>0\<close>, and \<open>1\<close> ever after: the output
  \<open>1, 0, 1, \<dots>, 1\<close> is not non-decreasing. The MaxHeap, with \<open>0\<close> and \<open>1\<close> exchanged,
  yields \<open>0, 1, 0, \<dots>, 0\<close>, which is not non-increasing.
\<close>

theorem C2_drain_not_sorted_when_the_index_wraps:
  "fst (MinHeap_drain
         (snd (MinHeap_run (replicate 2147483648 (Enqueue 1) @ [Enqueue (0::int)]) MinHeap_new)))
     = 1 # 0 # replicate 2147483647 1 \<and>
   fst (MaxHeap_drain
         (snd (MaxHeap_run (replicate 2147483648 (Enqueue 0) @ [Enqueue (1::int)]) MaxHeap_new)))
     = 0 # 1 # replicate 2147483647 0 \<and>
   fst (MinHeap_drain (snd (MinHeap_run (map Enqueue [5, 3, 8, 1, 9, 2::int]) MinHeap_new)))
     = [1, 2, 3, 5, 8, 9] \<and>
   fst (MaxHeap_drain (snd (MaxHeap_run (map Enqueue [5, 3, 8, 1, 9, 2::int]) MaxHeap_new)))
     = [9, 8, 5, 3, 2, 1]"
proof -
  have 1: "fst (MinHeap_drain (snd (MinHeap_run (map Enqueue [5, 3, 8, 1, 9, 2::int]) MinHeap_new)))
             = [1, 2, 3, 5, 8, 9]"
    by (simp add: MinHeap_eval)
  have 2: "fst (MaxHeap_drain (snd (MaxHeap_run (map Enqueue [5, 3, 8, 1, 9, 2::int]) MaxHeap_new)))
             = [9, 8, 5, 3, 2, 1]"
    by (simp add: MaxHeap_eval)
  have w: "int_of_size_t 2147483648 \<le> 0" "int_of_size_t 2147483648 \<le> 1"
    by (simp_all add: int_of_size_t_2_31)
  have n: "(1::nat) < 2147483648" by simp
  have m: "(2147483648::nat) - 1 = 2147483647" by simp
  have 3: "fst (MinHeap_drain
         (snd (MinHeap_run (replicate 2147483648 (Enqueue 1) @ [Enqueue (0::int)]) MinHeap_new)))
     = 1 # 0 # replicate 2147483647 1"
    using MinHeap_drain_wrapped [OF MinHeap_run_wrapped_insertion [OF w(1), of "1::int" 0] n w(2)]
    unfolding m .
  have 4: "fst (MaxHeap_drain
         (snd (MaxHeap_run (replicate 2147483648 (Enqueue 0) @ [Enqueue (1::int)]) MaxHeap_new)))
     = 0 # 1 # replicate 2147483647 0"
    using MaxHeap_drain_wrapped [OF MaxHeap_run_wrapped_insertion [OF w(1), of "0::int" 1] n w(2)]
    unfolding m .
  from 1 2 3 4 show ?thesis by blast
qed

text \<open>
  C3. A heap with zero elements, whether freshly constructed (by either constructor) or
  drained, throws on \<open>peek\<close> and on \<open>dequeue\<close> (\<open>std::out_of_range\<close>, the
  EmptyStructure condition of the specification) and is left as it was; so every call of
  any sequence of peeks and removes on it throws, every time. A drain loop that returns
  leaves such a heap; one that does not return has run into the signed overflow of the
  downward repair, which needs a heap of more than \<open>2^30\<close> elements.
\<close>

theorem C3_empty_heap_throws_and_is_unchanged:
  "vec_empty (MinHeap_new :: 'a vector) \<and> vec_empty (MaxHeap_new :: 'a vector) \<and>
   (case (MinHeap_new_sized P N :: failure + 'a vector) of Inl e \<Rightarrow> True | Inr g \<Rightarrow> vec_empty g) \<and>
   (case (MaxHeap_new_sized P N :: failure + 'a vector) of Inl e \<Rightarrow> True | Inr g \<Rightarrow> vec_empty g) \<and>
   (case MinHeap_drain (g :: 'a::linorder vector) of
      (xs, Inr u, h') \<Rightarrow> vec_empty h'
    | (xs, Inl e, h') \<Rightarrow> e = undefined_behaviour \<and> 2 ^ 30 < length (elems g)) \<and>
   (case MaxHeap_drain g of
      (xs, Inr u, h') \<Rightarrow> vec_empty h'
    | (xs, Inl e, h') \<Rightarrow> e = undefined_behaviour \<and> 2 ^ 30 < length (elems g)) \<and>
   (vec_empty (h :: 'a vector) \<longrightarrow>
      MinHeap_peek h = (Inl (out_of_range ''Heap is empty.''), h) \<and>
      MinHeap_dequeue h = (Inl (out_of_range ''Cannot dequeue from an empty heap.''), h) \<and>
      MaxHeap_peek h = (Inl (out_of_range ''Heap is empty.''), h) \<and>
      MaxHeap_dequeue h = (Inl (out_of_range ''Cannot dequeue from an empty heap.''), h) \<and>
      (set cs \<subseteq> {Peek, Dequeue} \<longrightarrow>
         MinHeap_run cs h =
           (map (\<lambda>c. Inl (out_of_range (if c = Peek then ''Heap is empty.''
                                          else ''Cannot dequeue from an empty heap.''))) cs, h) \<and>
         MaxHeap_run cs h =
           (map (\<lambda>c. Inl (out_of_range (if c = Peek then ''Heap is empty.''
                                          else ''Cannot dequeue from an empty heap.''))) cs, h)))"
proof -
  have new: "vec_empty (MinHeap_new :: 'a vector)" "vec_empty (MaxHeap_new :: 'a vector)"
    by (simp_all add: MinHeap_new_def MaxHeap_new_def vec_new_def vec_empty_def)
  have sized:
    "(case (MinHeap_new_sized P N :: failure + 'a vector) of Inl e \<Rightarrow> True | Inr g \<Rightarrow> vec_empty g)"
    "(case (MaxHeap_new_sized P N :: failure + 'a vector) of Inl e \<Rightarrow> True | Inr g \<Rightarrow> vec_empty g)"
    by (simp_all add: MinHeap_new_sized_def MaxHeap_new_sized_def vec_reserve_def vec_new_def
          vec_empty_def)
  note drained = MinHeap_drain_ends_case [of g] MaxHeap_drain_ends_case [of g]
  have one:
    "MinHeap_peek h = (Inl (out_of_range ''Heap is empty.''), h)"
    "MinHeap_dequeue h = (Inl (out_of_range ''Cannot dequeue from an empty heap.''), h)"
    "MaxHeap_peek h = (Inl (out_of_range ''Heap is empty.''), h)"
    "MaxHeap_dequeue h = (Inl (out_of_range ''Cannot dequeue from an empty heap.''), h)"
    if "vec_empty h"
    using that
    by (simp_all add: MinHeap_peek_def MinHeap_dequeue_def MaxHeap_peek_def MaxHeap_dequeue_def)
  have many:
    "MinHeap_run cs h =
       (map (\<lambda>c. Inl (out_of_range (if c = Peek then ''Heap is empty.''
                                      else ''Cannot dequeue from an empty heap.''))) cs, h) \<and>
     MaxHeap_run cs h =
       (map (\<lambda>c. Inl (out_of_range (if c = Peek then ''Heap is empty.''
                                      else ''Cannot dequeue from an empty heap.''))) cs, h)"
    if "vec_empty h" "set cs \<subseteq> {Peek, Dequeue}"
    using that(2)
  proof (induction cs)
    case Nil
    then show ?case by simp
  next
    case (Cons c cs)
    then have "c = Peek \<or> c = Dequeue" by simp
    then have "MinHeap_call c h =
                 (Inl (out_of_range (if c = Peek then ''Heap is empty.''
                                     else ''Cannot dequeue from an empty heap.'')), h)"
      and "MaxHeap_call c h =
                 (Inl (out_of_range (if c = Peek then ''Heap is empty.''
                                     else ''Cannot dequeue from an empty heap.'')), h)"
      using one [OF that(1)] by (auto simp add: MinHeap_call_def MaxHeap_call_def)
    then show ?case
      using Cons by (simp add: MinHeap_run_Cons MaxHeap_run_Cons)
  qed
  show ?thesis
    using new sized drained one many by blast
qed

theorem C3_witness:
  "vec_empty (MinHeap_new :: int vector) \<and>
   MinHeap_peek (MinHeap_new :: int vector) = (Inl (out_of_range ''Heap is empty.''), MinHeap_new) \<and>
   MaxHeap_dequeue (MaxHeap_new :: int vector)
     = (Inl (out_of_range ''Cannot dequeue from an empty heap.''), MaxHeap_new) \<and>
   set [Peek, Dequeue, Peek :: int call] \<subseteq> {Peek, Dequeue} \<and>
   MinHeap_run [Peek, Dequeue, Peek] (MinHeap_new :: int vector) =
     ([Inl (out_of_range ''Heap is empty.''),
       Inl (out_of_range ''Cannot dequeue from an empty heap.''),
       Inl (out_of_range ''Heap is empty.'')], MinHeap_new)"
  using C3_empty_heap_throws_and_is_unchanged
    [where h = "MinHeap_new :: int vector" and cs = "[Peek, Dequeue, Peek]"]
  by (simp add: MinHeap_eval MaxHeap_eval)

text \<open>
  C4. On a non-empty heap \<open>dequeue\<close> does not always repair downward from the root as the
  specification's removeMin does. On the MinHeap that holds \<open>2^31\<close> times \<open>1\<close> and then a
  \<open>2\<close> it overwrites the root with the \<open>2\<close> and shrinks the vector to \<open>2^31\<close> elements;
  in \<open>bubbleDown(0)\<close> the bound \<open>static_cast<int>(data.size())\<close> is \<open>-2^31\<close>, both children
  are taken to be absent, and the call returns with the \<open>2\<close> at the root above its left
  child, a strictly smaller \<open>1\<close>, where the specification swaps. On the MinHeap that holds
  \<open>2^30\<close> times \<open>1\<close> and then a \<open>2\<close> the repair swaps down the left spine and then
  evaluates \<open>2 * index + 2\<close> at index \<open>2^30 - 1\<close>, a signed overflow: the call has no
  defined result. The MaxHeap does the same on the mirrored heaps.
\<close>

theorem C4_dequeue_leaves_smaller_child_below_root:
  "MinHeap_dequeue \<lparr>elems = replicate 2147483648 1 @ [2::int], capacity = 4294967296\<rparr>
     = (Inr (), \<lparr>elems = (replicate 2147483648 1)[0 := 2], capacity = 4294967296\<rparr>) \<and>
   (replicate 2147483648 1)[0 := 2::int] ! 0 = 2 \<and>
   (replicate 2147483648 1)[0 := 2::int] ! 1 = 1 \<and>
   1 < length ((replicate 2147483648 1)[0 := 2::int]) \<and>
   MinHeap_dequeue \<lparr>elems = replicate 1073741824 1 @ [2::int], capacity = 2147483648\<rparr>
     = (Inl undefined_behaviour,
        \<lparr>elems = (replicate 1073741824 1)[0 := 2], capacity = 2147483648\<rparr>) \<and>
   MaxHeap_dequeue \<lparr>elems = replicate 2147483648 1 @ [0::int], capacity = 4294967296\<rparr>
     = (Inr (), \<lparr>elems = (replicate 2147483648 1)[0 := 0], capacity = 4294967296\<rparr>) \<and>
   (replicate 2147483648 1)[0 := 0::int] ! 0 = 0 \<and>
   (replicate 2147483648 1)[0 := 0::int] ! 1 = 1 \<and>
   MaxHeap_dequeue \<lparr>elems = replicate 1073741824 1 @ [0::int], capacity = 2147483648\<rparr>
     = (Inl undefined_behaviour,
        \<lparr>elems = (replicate 1073741824 1)[0 := 0], capacity = 2147483648\<rparr>)"
proof -
  have w: "int_of_size_t 2147483648 \<le> 1" by (simp add: int_of_size_t_2_31)
  have n: "(0::nat) < 2147483648" by simp
  have 1: "MinHeap_dequeue \<lparr>elems = replicate 2147483648 1 @ [2::int], capacity = 4294967296\<rparr>
     = (Inr (), \<lparr>elems = (replicate 2147483648 1)[0 := 2], capacity = 4294967296\<rparr>)"
    using MinHeap_dequeue_wrapped
      [of "\<lparr>elems = replicate 2147483648 1 @ [2::int], capacity = 4294967296\<rparr>" 2147483648 1 2, OF _ n w]
    by simp
  have 2: "MaxHeap_dequeue \<lparr>elems = replicate 2147483648 1 @ [0::int], capacity = 4294967296\<rparr>
     = (Inr (), \<lparr>elems = (replicate 2147483648 1)[0 := 0], capacity = 4294967296\<rparr>)"
    using MaxHeap_dequeue_wrapped
      [of "\<lparr>elems = replicate 2147483648 1 @ [0::int], capacity = 4294967296\<rparr>" 2147483648 1 0, OF _ n w]
    by simp
  have 3: "MinHeap_dequeue \<lparr>elems = replicate 1073741824 1 @ [2::int], capacity = 2147483648\<rparr>
     = (Inl undefined_behaviour,
        \<lparr>elems = (replicate 1073741824 1)[0 := 2], capacity = 2147483648\<rparr>)"
    using MinHeap_dequeue_overflow
      [of "1::int" 2 "\<lparr>elems = replicate 1073741824 1 @ [2::int], capacity = 2147483648\<rparr>"]
    by simp
  have 4: "MaxHeap_dequeue \<lparr>elems = replicate 1073741824 1 @ [0::int], capacity = 2147483648\<rparr>
     = (Inl undefined_behaviour,
        \<lparr>elems = (replicate 1073741824 1)[0 := 0], capacity = 2147483648\<rparr>)"
    using MaxHeap_dequeue_overflow
      [of 0 "1::int" "\<lparr>elems = replicate 1073741824 1 @ [0::int], capacity = 2147483648\<rparr>"]
    by simp
  have 5: "(replicate 2147483648 1)[0 := 2::int] ! 0 = 2"
    "(replicate 2147483648 1)[0 := 2::int] ! 1 = 1"
    "1 < length ((replicate 2147483648 1)[0 := 2::int])"
    "(replicate 2147483648 1)[0 := 0::int] ! 0 = 0"
    "(replicate 2147483648 1)[0 := 0::int] ! 1 = 1"
    by simp_all
  from 1 2 3 4 5 show ?thesis by blast
qed

text \<open>
  C5. \<open>enqueue\<close> does not restore the heap order on every heap. On the MinHeap of \<open>2^31\<close>
  elements \<open>1\<close> the call \<open>enqueue(0)\<close> returns with the \<open>0\<close> in the last slot, index
  \<open>2^31\<close>, and its parent at index \<open>1073741823\<close> still holding \<open>1\<close>: the index handed to
  \<open>bubbleUp\<close> has wrapped to \<open>-2^31\<close> and the upward repair, which the specification's
  insert carries out to the root, does not take place. The MaxHeap does the same with
  \<open>0\<close> and \<open>1\<close> exchanged.
\<close>

theorem C5_enqueue_skips_the_upward_repair:
  "MinHeap_enqueue 0 \<lparr>elems = replicate 2147483648 (1::int), capacity = 2147483648\<rparr>
     = (Inr (), \<lparr>elems = replicate 2147483648 1 @ [0], capacity = 4294967296\<rparr>) \<and>
   MaxHeap_enqueue 1 \<lparr>elems = replicate 2147483648 (0::int), capacity = 2147483648\<rparr>
     = (Inr (), \<lparr>elems = replicate 2147483648 0 @ [1], capacity = 4294967296\<rparr>) \<and>
   (2147483648 - 1) div 2 = (1073741823::int) \<and>
   (replicate 2147483648 1 @ [0::int]) ! 2147483648 = 0 \<and>
   (replicate 2147483648 1 @ [0::int]) ! 1073741823 = 1 \<and>
   (replicate 2147483648 0 @ [1::int]) ! 2147483648 = 1 \<and>
   (replicate 2147483648 0 @ [1::int]) ! 1073741823 = 0"
proof -
  have 1: "MinHeap_enqueue 0 \<lparr>elems = replicate 2147483648 (1::int), capacity = 2147483648\<rparr>
     = (Inr (), \<lparr>elems = replicate 2147483648 1 @ [0], capacity = 4294967296\<rparr>)"
    by (simp add: MinHeap_enqueue_def vec_push_back_def vec_size_def Let_def
          int_of_size_t_2_31 MinHeap_bubbleUp_nonpos)
  have 2: "MaxHeap_enqueue 1 \<lparr>elems = replicate 2147483648 (0::int), capacity = 2147483648\<rparr>
     = (Inr (), \<lparr>elems = replicate 2147483648 0 @ [1], capacity = 4294967296\<rparr>)"
    by (simp add: MaxHeap_enqueue_def vec_push_back_def vec_size_def Let_def
          int_of_size_t_2_31 MaxHeap_bubbleUp_nonpos)
  have 3: "(2147483648 - 1) div 2 = (1073741823::int)"
    "(replicate 2147483648 1 @ [0::int]) ! 2147483648 = 0"
    "(replicate 2147483648 1 @ [0::int]) ! 1073741823 = 1"
    "(replicate 2147483648 0 @ [1::int]) ! 2147483648 = 1"
    "(replicate 2147483648 0 @ [1::int]) ! 1073741823 = 0"
    by (simp_all add: nth_append)
  from 1 2 3 show ?thesis by blast
qed


text \<open>
  C7. \<open>getSize()\<close> does not equal the number of insertions less the number of removals at
  every point, and \<open>isEmpty()\<close> is not true exactly when \<open>getSize()\<close> is \<open>0\<close>. After
  \<open>2^31\<close> insertions, all of which return, and no removal, the vector holds \<open>2^31\<close>
  elements and \<open>int getSize()\<close> returns \<open>data.size()\<close> converted to \<open>int\<close>:
  \<open>-2147483648\<close>. After \<open>2^32\<close> insertions it returns \<open>0\<close>, while \<open>isEmpty()\<close>, which
  reads the vector itself, returns false.
\<close>

theorem C7_getSize_wraps_after_2_31_insertions:
  "fst (MinHeap_run (replicate 2147483648 (Enqueue (0::int)) @ [GetSize, IsEmpty]) MinHeap_new)
     = replicate 2147483648 (Inr Void) @ [Inr (Count (- 2147483648)), Inr (Flag False)] \<and>
   fst (MaxHeap_run (replicate 2147483648 (Enqueue (0::int)) @ [GetSize, IsEmpty]) MaxHeap_new)
     = replicate 2147483648 (Inr Void) @ [Inr (Count (- 2147483648)), Inr (Flag False)] \<and>
   fst (MinHeap_run (replicate 4294967296 (Enqueue (0::int)) @ [GetSize, IsEmpty]) MinHeap_new)
     = replicate 4294967296 (Inr Void) @ [Inr (Count 0), Inr (Flag False)] \<and>
   fst (MaxHeap_run (replicate 4294967296 (Enqueue (0::int)) @ [GetSize, IsEmpty]) MaxHeap_new)
     = replicate 4294967296 (Inr Void) @ [Inr (Count 0), Inr (Flag False)]"
proof -
  have w: "int_of_size_t 4294967296 = 0" by (simp add: int_of_size_t_def)
  have g: "fst (MinHeap_run [GetSize, IsEmpty] h)
             = [Inr (Count (int_of_size_t n)), Inr (Flag (n = 0))]"
    "fst (MaxHeap_run [GetSize, IsEmpty] h)
             = [Inr (Count (int_of_size_t n)), Inr (Flag (n = 0))]"
    if "elems h = replicate n (0::int)" for h n
    using that
    by (simp_all add: MinHeap_run_Cons MinHeap_call_def MinHeap_getSize_def MinHeap_isEmpty_def
          MaxHeap_run_Cons MaxHeap_call_def MaxHeap_getSize_def MaxHeap_isEmpty_def
          vec_size_def vec_empty_def)
  have 1: "fst (MinHeap_run [GetSize, IsEmpty]
                 (snd (MinHeap_run (replicate 2147483648 (Enqueue (0::int))) MinHeap_new)))
             = [Inr (Count (- 2147483648)), Inr (Flag False)]"
    using g(1) [OF MinHeap_run_Enqueues_then(2) [of 2147483648 "0::int"]]
    by (simp add: int_of_size_t_2_31)
  have 2: "fst (MaxHeap_run [GetSize, IsEmpty]
                 (snd (MaxHeap_run (replicate 2147483648 (Enqueue (0::int))) MaxHeap_new)))
             = [Inr (Count (- 2147483648)), Inr (Flag False)]"
    using g(2) [OF MaxHeap_run_Enqueues_then(2) [of 2147483648 "0::int"]]
    by (simp add: int_of_size_t_2_31)
  have 3: "fst (MinHeap_run [GetSize, IsEmpty]
                 (snd (MinHeap_run (replicate 4294967296 (Enqueue (0::int))) MinHeap_new)))
             = [Inr (Count 0), Inr (Flag False)]"
    using g(1) [OF MinHeap_run_Enqueues_then(2) [of 4294967296 "0::int"]]
    by (simp add: w)
  have 4: "fst (MaxHeap_run [GetSize, IsEmpty]
                 (snd (MaxHeap_run (replicate 4294967296 (Enqueue (0::int))) MaxHeap_new)))
             = [Inr (Count 0), Inr (Flag False)]"
    using g(2) [OF MaxHeap_run_Enqueues_then(2) [of 4294967296 "0::int"]]
    by (simp add: w)
  show ?thesis
    by (simp only: MinHeap_run_Enqueues_then(1) MaxHeap_run_Enqueues_then(1) fst_conv 1 2 3 4)
qed

text \<open>
  C8. On a non-empty heap \<open>peek\<close> returns the element at index 0 and leaves the
  structure as it was; so two peeks in succession return the same value, and \<open>getSize\<close>
  after them returns what it returned before.
\<close>

theorem C8_peek_returns_root_and_keeps_state:
  "elems h \<noteq> [] \<Longrightarrow>
   MinHeap_peek h = (Inr (elems h ! 0), h) \<and>
   MaxHeap_peek h = (Inr (elems h ! 0), h) \<and>
   MinHeap_run [GetSize, Peek, Peek, GetSize] h =
     ([Inr (Count (int_of_size_t (length (elems h)))), Inr (Item (elems h ! 0)),
       Inr (Item (elems h ! 0)), Inr (Count (int_of_size_t (length (elems h))))], h) \<and>
   MaxHeap_run [GetSize, Peek, Peek, GetSize] h =
     ([Inr (Count (int_of_size_t (length (elems h)))), Inr (Item (elems h ! 0)),
       Inr (Item (elems h ! 0)), Inr (Count (int_of_size_t (length (elems h))))], h)"
  by (simp add: MinHeap_run_Cons MaxHeap_run_Cons MinHeap_call_def MaxHeap_call_def
        MinHeap_peek_def MaxHeap_peek_def MinHeap_getSize_def MaxHeap_getSize_def
        vec_empty_def vec_size_def hd_conv_nth)

theorem C8_witness:
  "elems \<lparr>elems = [1, 2, 2, 3::int], capacity = 4\<rparr> \<noteq> [] \<and>
   MinHeap_peek \<lparr>elems = [1, 2, 2, 3::int], capacity = 4\<rparr>
     = (Inr 1, \<lparr>elems = [1, 2, 2, 3::int], capacity = 4\<rparr>) \<and>
   MinHeap_run [GetSize, Peek, Peek, GetSize] \<lparr>elems = [1, 2, 2, 3::int], capacity = 4\<rparr> =
     ([Inr (Count 4), Inr (Item 1), Inr (Item 1), Inr (Count 4)],
      \<lparr>elems = [1, 2, 2, 3::int], capacity = 4\<rparr>)"
  using C8_peek_returns_root_and_keeps_state [of "\<lparr>elems = [1, 2, 2, 3::int], capacity = 4\<rparr>"]
  by (simp add: int_of_size_t_def)

text \<open>
  C9. As stated, for every capacity hint, the claim fails: the hint is an \<open>int\<close>, and a
  negative one, converted to \<open>size_t\<close> for \<open>reserve\<close>, exceeds \<open>max_size()\<close> and makes
  \<open>reserve\<close> throw \<open>std::length_error\<close> out of the constructor, where the default
  constructor returns an empty heap.
\<close>

theorem C9_negative_hint_throws:
  "(MinHeap_new_sized ample (- 1) :: failure + int vector) = Inl length_error \<and>
   (MaxHeap_new_sized ample (- 1) :: failure + int vector) = Inl length_error \<and>
   (MinHeap_new :: int vector) = \<lparr>elems = [], capacity = 0\<rparr> \<and>
   (MaxHeap_new :: int vector) = \<lparr>elems = [], capacity = 0\<rparr>"
  by (simp add: MinHeap_new_sized_def MaxHeap_new_sized_def vec_reserve_def size_t_of_int_def
        vec_max_size_def ample_def MinHeap_new_def MaxHeap_new_def vec_new_def)

text \<open>
  C9, amended. On every platform the constructor with a capacity hint \<open>N\<close> (an \<open>int\<close>)
  throws \<open>std::length_error\<close> when \<open>N\<close> is negative. When \<open>N\<close> is not negative it throws
  \<open>std::length_error\<close> if \<open>N\<close> exceeds the vector's \<open>max_size()\<close>, returns an empty heap
  with nothing reserved if \<open>N\<close> is \<open>0\<close>, returns an empty heap with \<open>N\<close> elements reserved
  if the allocation succeeds, and throws \<open>std::bad_alloc\<close> if it does not. Whenever the
  constructor returns, the heap is empty, and every sequence of calls \<open>cs\<close> returns and
  throws on it exactly what it returns and throws on a heap made by the default
  constructor (sizes, values read, their order, exceptions), and leaves the same
  elements; then the hint changes the reserved capacity only. (A failure of the vector
  to grow during an insertion is outside the contract of the heaps, here as everywhere.)
\<close>

theorem C9_capacity_hint_not_observable:
  "(INT_MIN \<le> N \<and> N < 0 \<longrightarrow>
      (MinHeap_new_sized P N :: failure + 'a vector) = Inl length_error \<and>
      (MaxHeap_new_sized P N :: failure + 'a vector) = Inl length_error) \<and>
   (0 \<le> N \<and> N \<le> INT_MAX \<longrightarrow>
      (MinHeap_new_sized P N :: failure + 'a vector) =
        (if vec_max_size P < nat N then Inl length_error
         else if N = 0 then Inr \<lparr>elems = [], capacity = 0\<rparr>
         else if alloc_ok P (nat N) then Inr \<lparr>elems = [], capacity = nat N\<rparr>
         else Inl bad_alloc) \<and>
      (MaxHeap_new_sized P N :: failure + 'a vector) =
        (if vec_max_size P < nat N then Inl length_error
         else if N = 0 then Inr \<lparr>elems = [], capacity = 0\<rparr>
         else if alloc_ok P (nat N) then Inr \<lparr>elems = [], capacity = nat N\<rparr>
         else Inl bad_alloc)) \<and>
   (case (MinHeap_new_sized P N :: failure + 'a vector) of
      Inl e \<Rightarrow> e = length_error \<or> e = bad_alloc
    | Inr g \<Rightarrow>
        elems g = [] \<and>
        fst (MinHeap_run (cs :: 'a::linorder call list) g) = fst (MinHeap_run cs MinHeap_new) \<and>
        elems (snd (MinHeap_run cs g)) = elems (snd (MinHeap_run cs MinHeap_new))) \<and>
   (case (MaxHeap_new_sized P N :: failure + 'a vector) of
      Inl e \<Rightarrow> e = length_error \<or> e = bad_alloc
    | Inr g \<Rightarrow>
        elems g = [] \<and>
        fst (MaxHeap_run cs g) = fst (MaxHeap_run cs MaxHeap_new) \<and>
        elems (snd (MaxHeap_run cs g)) = elems (snd (MaxHeap_run cs MaxHeap_new)))"
proof -
  have neg: "(MinHeap_new_sized P N :: failure + 'a vector) = Inl length_error"
    "(MaxHeap_new_sized P N :: failure + 'a vector) = Inl length_error"
    if "INT_MIN \<le> N" "N < 0"
  proof -
    have "vec_max_size P < size_t_of_int N"
      using size_t_of_int_negative(2) [OF that(2,1)] vec_max_size_le [of P] by simp
    then show "(MinHeap_new_sized P N :: failure + 'a vector) = Inl length_error"
      "(MaxHeap_new_sized P N :: failure + 'a vector) = Inl length_error"
      by (simp_all add: MinHeap_new_sized_def MaxHeap_new_sized_def vec_reserve_def)
  qed
  have pos: "(MinHeap_new_sized P N :: failure + 'a vector) =
        (if vec_max_size P < nat N then Inl length_error
         else if N = 0 then Inr \<lparr>elems = [], capacity = 0\<rparr>
         else if alloc_ok P (nat N) then Inr \<lparr>elems = [], capacity = nat N\<rparr>
         else Inl bad_alloc)"
    "(MaxHeap_new_sized P N :: failure + 'a vector) =
        (if vec_max_size P < nat N then Inl length_error
         else if N = 0 then Inr \<lparr>elems = [], capacity = 0\<rparr>
         else if alloc_ok P (nat N) then Inr \<lparr>elems = [], capacity = nat N\<rparr>
         else Inl bad_alloc)"
    if "0 \<le> N" "N \<le> INT_MAX"
  proof -
    have "N < 2 ^ 64" using that(2) by (simp add: INT_MAX_def)
    then have "N mod 2 ^ 64 = N" using that(1) by (intro mod_pos_pos_trivial)
    then have s: "size_t_of_int N = nat N" unfolding size_t_of_int_def by (rule arg_cong)
    show "(MinHeap_new_sized P N :: failure + 'a vector) =
        (if vec_max_size P < nat N then Inl length_error
         else if N = 0 then Inr \<lparr>elems = [], capacity = 0\<rparr>
         else if alloc_ok P (nat N) then Inr \<lparr>elems = [], capacity = nat N\<rparr>
         else Inl bad_alloc)"
      "(MaxHeap_new_sized P N :: failure + 'a vector) =
        (if vec_max_size P < nat N then Inl length_error
         else if N = 0 then Inr \<lparr>elems = [], capacity = 0\<rparr>
         else if alloc_ok P (nat N) then Inr \<lparr>elems = [], capacity = nat N\<rparr>
         else Inl bad_alloc)"
      using that(1)
      by (auto simp add: MinHeap_new_sized_def MaxHeap_new_sized_def vec_reserve_def s vec_new_def)
  qed
  have any: "fst (MinHeap_run cs g) = fst (MinHeap_run cs MinHeap_new) \<and>
             elems (snd (MinHeap_run cs g)) = elems (snd (MinHeap_run cs MinHeap_new))"
    "fst (MaxHeap_run cs g) = fst (MaxHeap_run cs MaxHeap_new) \<and>
     elems (snd (MaxHeap_run cs g)) = elems (snd (MaxHeap_run cs MaxHeap_new))"
    if "elems g = []" for g :: "'a vector"
    using that MinHeap_run_elems_cong [of g MinHeap_new cs]
      MaxHeap_run_elems_cong [of g MaxHeap_new cs]
    by (simp_all add: MinHeap_new_def MaxHeap_new_def vec_new_def)
  have ret: "(case (MinHeap_new_sized P N :: failure + 'a vector) of
      Inl e \<Rightarrow> e = length_error \<or> e = bad_alloc
    | Inr g \<Rightarrow>
        elems g = [] \<and>
        fst (MinHeap_run cs g) = fst (MinHeap_run cs MinHeap_new) \<and>
        elems (snd (MinHeap_run cs g)) = elems (snd (MinHeap_run cs MinHeap_new)))"
    "(case (MaxHeap_new_sized P N :: failure + 'a vector) of
      Inl e \<Rightarrow> e = length_error \<or> e = bad_alloc
    | Inr g \<Rightarrow>
        elems g = [] \<and>
        fst (MaxHeap_run cs g) = fst (MaxHeap_run cs MaxHeap_new) \<and>
        elems (snd (MaxHeap_run cs g)) = elems (snd (MaxHeap_run cs MaxHeap_new)))"
    by (simp_all add: MinHeap_new_sized_def MaxHeap_new_sized_def vec_reserve_def vec_new_def any)
  from neg pos ret show ?thesis by blast
qed

theorem C9_witness:
  "INT_MIN \<le> - 5 \<and> (- 5 :: int) < 0 \<and>
   (MinHeap_new_sized ample (- 5) :: failure + int vector) = Inl length_error \<and>
   (0::int) \<le> 8 \<and> 8 \<le> INT_MAX \<and>
   (MinHeap_new_sized ample 8 :: failure + int vector) = Inr \<lparr>elems = [], capacity = 8\<rparr> \<and>
   fst (MinHeap_run
          [Enqueue 2, Enqueue (1::int), Peek, GetSize, Dequeue, Peek, Dequeue, IsEmpty, Dequeue, Peek]
          \<lparr>elems = [], capacity = 8\<rparr>)
     = [Inr Void, Inr Void, Inr (Item 1), Inr (Count 2), Inr Void, Inr (Item 2), Inr Void,
        Inr (Flag True), Inl (out_of_range ''Cannot dequeue from an empty heap.''),
        Inl (out_of_range ''Heap is empty.'')] \<and>
   fst (MinHeap_run
          [Enqueue 2, Enqueue (1::int), Peek, GetSize, Dequeue, Peek, Dequeue, IsEmpty, Dequeue, Peek]
          MinHeap_new)
     = [Inr Void, Inr Void, Inr (Item 1), Inr (Count 2), Inr Void, Inr (Item 2), Inr Void,
        Inr (Flag True), Inl (out_of_range ''Cannot dequeue from an empty heap.''),
        Inl (out_of_range ''Heap is empty.'')] \<and>
   capacity (snd (MinHeap_run [Enqueue 2, Enqueue (1::int)] \<lparr>elems = [], capacity = 8\<rparr>)) = 8 \<and>
   capacity (snd (MinHeap_run [Enqueue 2, Enqueue (1::int)] MinHeap_new)) = 2"
proof -
  let ?cs = "[Enqueue 2, Enqueue (1::int), Peek, GetSize, Dequeue, Peek, Dequeue, IsEmpty, Dequeue, Peek]"
  have N: "INT_MIN \<le> - 5" "(- 5 :: int) < 0" "(0::int) \<le> 8" "8 \<le> INT_MAX"
    by (simp_all add: INT_MIN_def INT_MAX_def)
  have 1: "fst (MinHeap_run ?cs MinHeap_new)
     = [Inr Void, Inr Void, Inr (Item 1), Inr (Count 2), Inr Void, Inr (Item 2), Inr Void,
        Inr (Flag True), Inl (out_of_range ''Cannot dequeue from an empty heap.''),
        Inl (out_of_range ''Heap is empty.'')]"
    by (simp add: MinHeap_eval)
  have 2: "capacity (snd (MinHeap_run [Enqueue 2, Enqueue (1::int)] \<lparr>elems = [], capacity = 8\<rparr>)) = 8"
    "capacity (snd (MinHeap_run [Enqueue 2, Enqueue (1::int)] MinHeap_new)) = 2"
    by (simp_all add: MinHeap_eval)
  have 3: "(MinHeap_new_sized ample (- 5) :: failure + int vector) = Inl length_error"
    using C9_capacity_hint_not_observable [where N = "- 5" and P = ample] N(1,2) by blast
  have "(MinHeap_new_sized ample 8 :: failure + int vector) =
        (if vec_max_size ample < nat 8 then Inl length_error
         else if (8::int) = 0 then Inr \<lparr>elems = [], capacity = 0\<rparr>
         else if alloc_ok ample (nat 8) then Inr \<lparr>elems = [], capacity = nat 8\<rparr>
         else Inl bad_alloc)"
    using C9_capacity_hint_not_observable [where N = 8 and P = ample] N(3,4) by blast
  then have 4: "(MinHeap_new_sized ample 8 :: failure + int vector) = Inr \<lparr>elems = [], capacity = 8\<rparr>"
    by (simp add: vec_max_size_def ample_def)
  have "case (MinHeap_new_sized ample 8 :: failure + int vector) of
      Inl e \<Rightarrow> e = length_error \<or> e = bad_alloc
    | Inr g \<Rightarrow>
        elems g = [] \<and>
        fst (MinHeap_run ?cs g) = fst (MinHeap_run ?cs MinHeap_new) \<and>
        elems (snd (MinHeap_run ?cs g)) = elems (snd (MinHeap_run ?cs MinHeap_new))"
    using C9_capacity_hint_not_observable [where N = 8 and P = ample and cs = ?cs] by blast
  then have 5: "fst (MinHeap_run ?cs \<lparr>elems = [], capacity = 8\<rparr>) = fst (MinHeap_run ?cs MinHeap_new)"
    by (simp add: 4)
  from N 1 2 3 4 5 show ?thesis by simp
qed

text \<open>
  C10. The recursion of \<open>bubbleDown\<close> does not end within the height of the tree on
  every heap. On the MinHeap of \<open>2^30\<close> elements whose root holds \<open>2\<close> and whose other
  slots hold \<open>1\<close> (the vector on which \<open>dequeue\<close> calls \<open>bubbleDown(0)\<close> in C6) the
  recursion descends the left spine and, at index \<open>2^30 - 1\<close>, which is within bounds,
  evaluates \<open>2 * index + 2 = 2^31\<close> in \<open>int\<close>: a signed overflow, after which the call has
  no defined result, where the loop of the specification stops at this leaf. At that
  index the call overflows whatever the vector holds. The MaxHeap does the same with a
  \<open>1\<close> above \<open>2\<close>s.
\<close>

theorem C10_bubbleDown_overflows_at_the_last_leaf:
  "MinHeap_bubbleDown ((replicate 1073741824 (1::int))[0 := 2]) 0 = None \<and>
   MaxHeap_bubbleDown ((replicate 1073741824 (2::int))[0 := 1]) 0 = None \<and>
   MinHeap_bubbleDown (replicate 1073741824 (0::int)) 1073741823 = None \<and>
   MaxHeap_bubbleDown (replicate 1073741824 (0::int)) 1073741823 = None \<and>
   1073741823 < length (replicate 1073741824 (0::int))"
  using MinHeap_sink_from_root [of "1::int" 2] MaxHeap_sink_from_root [of "1::int" 2]
    MinHeap_sink_overflow [of "replicate 1073741824 (0::int)"]
    MaxHeap_sink_overflow [of "replicate 1073741824 (0::int)"]
  by simp

end
